theory Spec2Isabelle
  imports Main "HOL-Library.AList" "HOL-Library.List_Lexorder" "HOL-Library.Char_ord"
    "HOL-Library.Multiset"
begin

section \<open>Python values, exceptions and dictionaries\<close>

text \<open>
  The exceptions that the menu code can meet. \<open>IOError\<close> is Python 3's alias of
  \<open>OSError\<close> and \<open>PermissionError\<close> a subclass of it; \<open>ModuleNotFoundError\<close> is a
  subclass of \<open>ImportError\<close>; \<open>JSONDecodeError\<close> and \<open>UnicodeDecodeError\<close> are
  subclasses of \<open>ValueError\<close>. \<open>SystemExit\<close> and \<open>KeyboardInterrupt\<close> are subclasses
  of \<open>BaseException\<close> only; all the others are subclasses of \<open>Exception\<close>.
\<close>

datatype exn =
    IOError
  | PermissionError
  | JSONDecodeError
  | ImportError
  | ModuleNotFoundError
  | UnicodeDecodeError
  | AttributeError
  | IndexError
  | KeyError
  | TypeError
  | ValueError
  | EOFError
  | RuntimeError
  | SystemExit
  | KeyboardInterrupt

text \<open>\<open>isinstance(e, Exception)\<close>: what an \<open>except Exception\<close> clause catches.\<close>

fun is_Exception :: "exn \<Rightarrow> bool" where
  "is_Exception SystemExit = False"
| "is_Exception KeyboardInterrupt = False"
| "is_Exception e = True"

text \<open>
  A value stored under a key of an extension's metadata, as \<open>json.load\<close> returned it
  (an int it returns has at most 4300 digits: on a longer literal \<open>json.load\<close> itself
  raises). \<open>POther s\<close> is any value that is not \<open>None\<close>, a bool, an int or a str (a
  float, a list, a nested object); it carries the text \<open>s\<close> that \<open>str()\<close> gives it.
\<close>

datatype pyval = PNone | PBool bool | PInt int | PStr string | POther string

text \<open>A \<open>dict\<close> with string keys, in insertion order.\<close>

type_synonym 'v pydict = "(string \<times> 'v) list"

text \<open>\<open>d.get(k)\<close>: the value under \<open>k\<close>, \<open>None\<close> when the key is absent.\<close>

definition dict_get :: "pyval pydict \<Rightarrow> string \<Rightarrow> pyval" where
  "dict_get d k = (case map_of d k of Some v \<Rightarrow> v | None \<Rightarrow> PNone)"

section \<open>Python strings\<close>

text \<open>
  Text is modelled over ASCII. \<open>is_space\<close> is \<open>str.isspace\<close> on ASCII: tab, line feed,
  vertical tab, form feed, carriage return, the four separators \<open>0x1C\<close> to \<open>0x1F\<close>,
  and the space.
\<close>

definition is_space :: "char \<Rightarrow> bool" where
  "is_space c = (c \<in> set [CHR 0x09, CHR 0x0A, CHR 0x0B, CHR 0x0C, CHR 0x0D,
                           CHR 0x1C, CHR 0x1D, CHR 0x1E, CHR 0x1F, CHR '' ''])"

text \<open>\<open>s.strip()\<close>\<close>

definition py_strip :: "string \<Rightarrow> string" where
  "py_strip s = rev (dropWhile is_space (rev (dropWhile is_space s)))"

text \<open>\<open>s.lower()\<close>\<close>

definition lower_char :: "char \<Rightarrow> char" where
  "lower_char c =
     (case map_of (zip ''ABCDEFGHIJKLMNOPQRSTUVWXYZ'' ''abcdefghijklmnopqrstuvwxyz'') c of
        Some l \<Rightarrow> l
      | None \<Rightarrow> c)"

definition py_lower :: "string \<Rightarrow> string" where
  "py_lower s = map lower_char s"

text \<open>
  \<open>s.split()\<close>: the maximal runs of characters that are not whitespace. \<open>cur\<close> is the
  run being read.
\<close>

fun split_from :: "string \<Rightarrow> string \<Rightarrow> string list" where
  "split_from cur [] = (if cur = [] then [] else [cur])"
| "split_from cur (c # cs) =
     (if is_space c then (if cur = [] then split_from [] cs else cur # split_from [] cs)
      else split_from (cur @ [c]) cs)"

definition py_split :: "string \<Rightarrow> string list" where
  "py_split s = split_from [] s"

text \<open>\<open>str(n)\<close> of an int.\<close>

fun str_nat :: "nat \<Rightarrow> string" where
  "str_nat n =
     (if n < 10 then [''0123456789'' ! n]
      else str_nat (n div 10) @ [''0123456789'' ! (n mod 10)])"

text \<open>The equation of \<open>str_nat\<close> rewrites its own right-hand side: it is unfolded on demand.\<close>

declare str_nat.simps [simp del]

definition str_int :: "int \<Rightarrow> string" where
  "str_int i = (if i < 0 then CHR ''-'' # str_nat (nat (- i)) else str_nat (nat i))"

text \<open>\<open>str(v)\<close>, as an f-string formats a value.\<close>

fun py_str :: "pyval \<Rightarrow> string" where
  "py_str PNone = ''None''"
| "py_str (PBool b) = (if b then ''True'' else ''False'')"
| "py_str (PInt i) = str_int i"
| "py_str (PStr s) = s"
| "py_str (POther s) = s"

text \<open>
  \<open>int(s)\<close> of a str, \<open>None\<close> where Python raises \<open>ValueError\<close>. On an ASCII str the
  whitespace dropped around the number is C's: tab, line feed, vertical tab, form feed,
  carriage return and the space (the separators \<open>0x1C\<close> to \<open>0x1F\<close> are not). A sign may
  come first, then decimal digits, single underscores allowed between two digits. A str
  with more than 4300 digits is refused (the default of \<open>sys.set_int_max_str_digits\<close>).
\<close>

definition is_c_space :: "char \<Rightarrow> bool" where
  "is_c_space c = (c \<in> set [CHR 0x09, CHR 0x0A, CHR 0x0B, CHR 0x0C, CHR 0x0D, CHR '' ''])"

definition int_strip :: "string \<Rightarrow> string" where
  "int_strip s = rev (dropWhile is_c_space (rev (dropWhile is_c_space s)))"

definition is_digit :: "char \<Rightarrow> bool" where
  "is_digit c = (CHR ''0'' \<le> c \<and> c \<le> CHR ''9'')"

definition digit_val :: "char \<Rightarrow> nat" where
  "digit_val c = of_char c - 48"

fun digits_from :: "nat \<Rightarrow> string \<Rightarrow> nat option" where
  "digits_from n [] = Some n"
| "digits_from n [c] = (if is_digit c then Some (10 * n + digit_val c) else None)"
| "digits_from n (c # d # cs) =
     (if is_digit c then digits_from (10 * n + digit_val c) (d # cs)
      else if c = CHR ''_'' \<and> is_digit d then digits_from (10 * n + digit_val d) cs
      else None)"

definition parse_digits :: "string \<Rightarrow> nat option" where
  "parse_digits s =
     (case s of
        [] \<Rightarrow> None
      | c # cs \<Rightarrow> if is_digit c then digits_from (digit_val c) cs else None)"

definition py_int :: "string \<Rightarrow> int option" where
  "py_int s =
     (if 4300 < length (filter is_digit s) then None
      else case int_strip s of
             [] \<Rightarrow> None
           | c # cs \<Rightarrow>
               if c = CHR ''-'' then map_option (\<lambda>n. - int n) (parse_digits cs)
               else if c = CHR ''+'' then map_option int (parse_digits cs)
               else map_option int (parse_digits (c # cs)))"

section \<open>Extension instances\<close>

text \<open>
  Modelled from the spec: an instance of a subclass of \<open>BaseExtension\<close>
  (\<open>extensions/base_extension.py\<close> is not among the sources). \<open>ext_id\<close> is the
  object's identity: instances are compared by it ("identity by instance, not by display
  name"), so two instances are equal only when they are the same object. \<open>metadata\<close> is
  the instance's \<open>metadata\<close> attribute, the dictionary the loader passed to the
  constructor.
\<close>

record extension =
  ext_id :: nat
  metadata :: "pyval pydict"

definition display_name :: "extension \<Rightarrow> pyval" where
  "display_name ext = dict_get (metadata ext) ''display_name''"

section \<open>Events\<close>

text \<open>
  What the menu does that can be observed, in order: each \<open>print\<close> and \<open>Logger\<close>
  call with the values it formats, and each call of \<open>install_extension\<close>, \<open>input\<close>
  and \<open>get_confirm\<close>.
\<close>

datatype event =
    Print_starting
  | Print_installing nat
  | Print_progress nat nat pyval
  | Call_install extension
  | Log_ok pyval
  | Log_error pyval exn
  | Print_blank
  | Print_summary
  | Print_total nat
  | Print_successful nat
  | Print_failed_count nat
  | Print_failed_header
  | Print_failed_name pyval
  | Print_all_ok
  | Print_bulk_title
  | Print_available
  | Print_listing pyval pyval
  | Print_instructions
  | Print_instruction_numbers
  | Print_instruction_all
  | Print_instruction_done
  | Call_input
  | Print_selected_all nat
  | Print_added pyval
  | Print_already_selected pyval
  | Print_invalid_number string
  | Print_currently_selected nat
  | Print_item pyval
  | Print_no_selection
  | Print_selected_header
  | Call_get_confirm
  | Print_cancelled
  | Print_failed_loading string exn

section \<open>The batch executor\<close>

text \<open>
  The \<open>for i, extension in enumerate(extensions, 1)\<close> loop. \<open>install\<close> is the opaque
  \<open>install_extension\<close> of the instances: it runs in the world \<open>w\<close>, returns the new
  world and either completes (\<open>None\<close>) or raises (\<open>Some e\<close>). \<open>except Exception\<close>
  catches what \<open>is_Exception\<close> holds of; any other exception leaves the function at
  once: the result is then \<open>Inl\<close> of the exception, the trace so far and the world so
  far.
\<close>

fun install_loop ::
  "('w \<Rightarrow> extension \<Rightarrow> exn option \<times> 'w) \<Rightarrow> nat \<Rightarrow> nat \<Rightarrow> extension list \<Rightarrow>
   nat \<Rightarrow> pyval list \<Rightarrow> event list \<Rightarrow> 'w \<Rightarrow>
   (exn \<times> event list \<times> 'w) + (nat \<times> pyval list \<times> event list \<times> 'w)" where
  "install_loop install total_n i [] successful failed tr w = Inr (successful, failed, tr, w)"
| "install_loop install total_n i (extension # rest) successful failed tr w =
     (let name = display_name extension;
          tr1 = tr @ [Print_progress i total_n name, Call_install extension]
      in case install w extension of
           (None, w') \<Rightarrow>
             install_loop install total_n (i + 1) rest (successful + 1) failed
               (tr1 @ [Log_ok name, Print_blank]) w'
         | (Some e, w') \<Rightarrow>
             if is_Exception e
             then install_loop install total_n (i + 1) rest successful (failed @ [name])
                    (tr1 @ [Log_error name e, Print_blank]) w'
             else Inl (e, tr1, w'))"

definition installation_summary :: "nat \<Rightarrow> nat \<Rightarrow> pyval list \<Rightarrow> event list" where
  "installation_summary total_n successful failed =
     [Print_summary, Print_total total_n, Print_successful successful] @
     (if failed \<noteq> []
      then [Print_failed_count (length failed), Print_failed_header] @ map Print_failed_name failed
      else [Print_all_ok])"

text \<open>
  \<open>_install_selected_extensions\<close>: the result is the final \<open>successful\<close> and
  \<open>failed\<close>, the trace and the world after the last install, or the exception that left
  the loop with the trace and the world at that point.
\<close>

definition install_selected_extensions ::
  "('w \<Rightarrow> extension \<Rightarrow> exn option \<times> 'w) \<Rightarrow> extension list \<Rightarrow> 'w \<Rightarrow>
   (exn \<times> event list \<times> 'w) + (nat \<times> pyval list \<times> event list \<times> 'w)" where
  "install_selected_extensions install extensions w =
     (let total_n = length extensions
      in case install_loop install total_n 1 extensions 0 []
                [Print_starting, Print_installing total_n] w of
           Inl raised \<Rightarrow> Inl raised
         | Inr (successful, failed, tr, w') \<Rightarrow>
             Inr (successful, failed, tr @ installation_summary total_n successful failed, w'))"

text \<open>
  The outcome of each install of a batch, the world threaded from one item to the next:
  what "the items whose action raised" means when an install changes the world.
\<close>

fun install_outcomes ::
  "('w \<Rightarrow> extension \<Rightarrow> exn option \<times> 'w) \<Rightarrow> 'w \<Rightarrow> extension list \<Rightarrow> exn option list" where
  "install_outcomes install w [] = []"
| "install_outcomes install w (x # xs) =
     (case install w x of (r, w') \<Rightarrow> r # install_outcomes install w' xs)"

fun final_world :: "('w \<Rightarrow> extension \<Rightarrow> exn option \<times> 'w) \<Rightarrow> 'w \<Rightarrow> extension list \<Rightarrow> 'w" where
  "final_world install w [] = w"
| "final_world install w (x # xs) = final_world install (snd (install w x)) xs"

text \<open>The events of item \<open>i\<close> (1-based) of a batch of \<open>total\<close>, given its outcome.\<close>

definition item_events :: "nat \<Rightarrow> nat \<times> extension \<times> exn option \<Rightarrow> event list" where
  "item_events total_n = (\<lambda>(i, x, r).
     [Print_progress i total_n (display_name x), Call_install x,
      (case r of None \<Rightarrow> Log_ok (display_name x) | Some e \<Rightarrow> Log_error (display_name x) e),
      Print_blank])"

fun is_call :: "event \<Rightarrow> bool" where
  "is_call (Call_install x) = True"
| "is_call ev = False"

section \<open>The bulk selection engine\<close>

text \<open>
  The \<open>for idx in indices\<close> loop of \<open>bulk_install_extensions\<close>. \<open>extensions\<close> is
  \<open>self.extensions\<close>, the Registry.
\<close>

fun select_tokens ::
  "extension pydict \<Rightarrow> string list \<Rightarrow> extension list \<Rightarrow> event list \<Rightarrow>
   extension list \<times> event list" where
  "select_tokens extensions [] temp_selected tr = (temp_selected, tr)"
| "select_tokens extensions (idx # indices) temp_selected tr =
     (case map_of extensions idx of
        Some ext \<Rightarrow>
          if ext \<notin> set temp_selected
          then select_tokens extensions indices (temp_selected @ [ext])
                 (tr @ [Print_added (display_name ext)])
          else select_tokens extensions indices temp_selected
                 (tr @ [Print_already_selected (display_name ext)])
      | None \<Rightarrow>
          select_tokens extensions indices temp_selected (tr @ [Print_invalid_number idx]))"

text \<open>The \<open>for ext in temp_selected\<close> loop.\<close>

fun add_selected :: "extension list \<Rightarrow> extension list \<Rightarrow> extension list" where
  "add_selected [] selected_extensions = selected_extensions"
| "add_selected (ext # temp_selected) selected_extensions =
     add_selected temp_selected
       (if ext \<notin> set selected_extensions then selected_extensions @ [ext]
        else selected_extensions)"

text \<open>
  The \<open>try\<close> block of the selection loop's \<open>else\<close> branch, after
  \<open>indices = selection.split()\<close>. No statement of it raises here (every lookup is
  guarded by \<open>idx in self.extensions\<close>, and an instance's metadata is a dict), so the
  \<open>except Exception\<close> handler is never entered.
\<close>

definition parse_selection ::
  "extension pydict \<Rightarrow> string list \<Rightarrow> extension list \<Rightarrow> event list \<Rightarrow>
   extension list \<times> event list" where
  "parse_selection extensions indices selected_extensions tr =
     (case select_tokens extensions indices [] tr of
        (temp_selected, tr1) \<Rightarrow>
          if temp_selected \<noteq> []
          then (let selected' = add_selected temp_selected selected_extensions
                in (selected',
                    tr1 @ [Print_currently_selected (length selected')] @
                    map (Print_item \<circ> display_name) selected'))
          else (selected_extensions, tr1))"

text \<open>
  The \<open>while True\<close> loop. \<open>stdin\<close> is the lines still to be read; \<open>input\<close> raises
  \<open>EOFError\<close> when none is left, and nothing catches it. The result is the selection,
  the lines left unread and the trace.
\<close>

fun selection_loop ::
  "extension pydict \<Rightarrow> string list \<Rightarrow> extension list \<Rightarrow> event list \<Rightarrow>
   exn + (extension list \<times> string list \<times> event list)" where
  "selection_loop extensions [] selected_extensions tr = Inl EOFError"
| "selection_loop extensions (line # stdin) selected_extensions tr =
     (let selection = py_strip line
      in if py_lower selection = ''done''
         then Inr (selected_extensions, stdin, tr @ [Call_input])
         else if py_lower selection = ''all''
         then Inr (map snd extensions, stdin,
                   tr @ [Call_input, Print_selected_all (length (map snd extensions))])
         else (case parse_selection extensions (py_split selection) selected_extensions
                      (tr @ [Call_input]) of
                 (selected', tr') \<Rightarrow> selection_loop extensions stdin selected' tr'))"

text \<open>
  \<open>bulk_install_extensions\<close>. \<open>get_confirm\<close> (of \<open>utils.input_utils\<close>) is a parameter:
  it reads its answer from the lines left and returns it with the lines it left. The result
  is the trace, the lines left unread and the world, or the exception that left the
  function.
\<close>

definition bulk_install_extensions ::
  "('w \<Rightarrow> extension \<Rightarrow> exn option \<times> 'w) \<Rightarrow> (string list \<Rightarrow> bool \<times> string list) \<Rightarrow>
   extension pydict \<Rightarrow> string list \<Rightarrow> 'w \<Rightarrow> exn + (event list \<times> string list \<times> 'w)" where
  "bulk_install_extensions install get_confirm extensions stdin w =
     (let tr0 = [Print_bulk_title, Print_available] @
                map (\<lambda>extension. Print_listing (dict_get (metadata extension) ''index'')
                                  (display_name extension)) (map snd extensions) @
                [Print_instructions, Print_instruction_numbers, Print_instruction_all,
                 Print_instruction_done]
      in case selection_loop extensions stdin [] tr0 of
           Inl e \<Rightarrow> Inl e
         | Inr (selected_extensions, stdin1, tr1) \<Rightarrow>
             if selected_extensions = [] then Inr (tr1 @ [Print_no_selection], stdin1, w)
             else (let tr2 = tr1 @ [Print_selected_header] @
                             map (Print_item \<circ> display_name) selected_extensions @
                             [Call_get_confirm]
                   in case get_confirm stdin1 of
                        (True, stdin2) \<Rightarrow>
                          (case install_selected_extensions install selected_extensions w of
                             Inl (e, tr3, w') \<Rightarrow> Inl e
                           | Inr (successful, failed, tr3, w') \<Rightarrow>
                               Inr (tr2 @ tr3, stdin2, w'))
                      | (False, stdin2) \<Rightarrow> Inr (tr2 @ [Print_cancelled], stdin2, w)))"

section \<open>The extension loader\<close>

text \<open>
  A class as the loader sees it: whether \<open>issubclass(o, BaseExtension)\<close> holds, and what
  calling it with the metadata raises, if it raises.
\<close>

record pyclass =
  extends_base :: bool
  init_raises :: "exn option"

text \<open>A member of an imported module: \<open>BaseExtension\<close> itself, another class, or no class.\<close>

datatype pyobj = BaseExtension_class | Class pyclass | Not_a_class

text \<open>A module: its member names with their values, as \<open>dir\<close> and \<open>getattr\<close> give them.\<close>

type_synonym pymodule = "pyobj pydict"

definition isclass :: "pyobj \<Rightarrow> bool" where
  "isclass ob = (ob \<noteq> Not_a_class)"

definition issubclass_BaseExtension :: "pyobj \<Rightarrow> bool" where
  "issubclass_BaseExtension ob =
     (case ob of BaseExtension_class \<Rightarrow> True | Class c \<Rightarrow> extends_base c | Not_a_class \<Rightarrow> False)"

definition predicate :: "pyobj \<Rightarrow> bool" where
  "predicate ob = (isclass ob \<and> issubclass_BaseExtension ob \<and> ob \<noteq> BaseExtension_class)"

text \<open>\<open>inspect.getmembers(module, predicate)\<close>: the members that satisfy it, sorted by name.\<close>

definition getmembers :: "pymodule \<Rightarrow> (pyobj \<Rightarrow> bool) \<Rightarrow> (string \<times> pyobj) list" where
  "getmembers module pred = sort_key fst (filter (\<lambda>(name, value). pred value) module)"

text \<open>
  Modelled from the spec: the constructor of \<open>BaseExtension\<close> and its subclasses
  (\<open>extensions/base_extension.py\<close> and the extension packages are not among the sources).
  "Instantiate the resolved type with the parsed metadata as its sole construction
  argument"; the instance "wraps exactly one Descriptor". The result is the new instance's
  metadata, or what the constructor raises. \<open>BaseExtension\<close> is abstract and a value that
  is no class cannot be called: both raise \<open>TypeError\<close>.
\<close>

definition construct :: "pyobj \<Rightarrow> pyval pydict \<Rightarrow> exn + pyval pydict" where
  "construct ext_class metadata' =
     (case ext_class of
        Class c \<Rightarrow> (case init_raises c of Some e \<Rightarrow> Inl e | None \<Rightarrow> Inr metadata')
      | BaseExtension_class \<Rightarrow> Inl TypeError
      | Not_a_class \<Rightarrow> Inl TypeError)"

text \<open>
  What \<open>json.load\<close> returns: a dict or another value. A member of that dict is again a
  dict (of values) or another value, \<open>None\<close> included; only a dict has \<open>get\<close>.
\<close>

datatype pyjson = Json_dict "pyval pydict" | Json_other

datatype document = Document "pyjson pydict" | Not_a_dict

text \<open>
  A child of \<open>EXTENSION_ROOT\<close>: its name, what \<open>metadata_json.exists()\<close> gives for it
  (true, false, or the exception it raises: \<open>PermissionError\<close> for a directory that
  cannot be searched), and what opening and parsing that file gives (the document, or the
  exception raised).
\<close>

record dir_entry =
  entry_name :: string
  exists_result :: "exn + bool"
  json_load :: "exn + document"

text \<open>\<open>metadata_json.exists()\<close> returned true.\<close>

definition metadata_exists :: "dir_entry \<Rightarrow> bool" where
  "metadata_exists ext = (exists_result ext = Inr True)"

text \<open>
  The body of the \<open>try\<close> block for one package. \<open>import_module\<close> is
  \<open>importlib.import_module\<close>: the module a dotted path names, or the exception raised.
  The result is the key and the new instance's metadata.
\<close>

definition load_package ::
  "(string \<Rightarrow> exn + pymodule) \<Rightarrow> dir_entry \<Rightarrow> exn + (string \<times> pyval pydict)" where
  "load_package import_module ext =
     (case json_load ext of
        Inl e \<Rightarrow> Inl e
      | Inr Not_a_dict \<Rightarrow> Inl AttributeError
      | Inr (Document doc) \<Rightarrow>
          (case map_of doc ''metadata'' of
             Some (Json_dict metadata') \<Rightarrow>
               (let module_name = dict_get metadata' ''module'';
                    module_path = ''kiauh.extensions.'' @ entry_name ext @ ''.'' @ py_str module_name
                in case import_module module_path of
                     Inl e \<Rightarrow> Inl e
                   | Inr module \<Rightarrow>
                       (case getmembers module predicate of
                          [] \<Rightarrow> Inl IndexError
                        | (name, ext_class) # others \<Rightarrow>
                            (case construct ext_class metadata' of
                               Inl e \<Rightarrow> Inl e
                             | Inr instance_metadata \<Rightarrow>
                                 Inr (py_str (dict_get metadata' ''index''), instance_metadata))))
           | Some Json_other \<Rightarrow> Inl AttributeError
           | None \<Rightarrow> Inl AttributeError))"

text \<open>\<open>except (IOError, json.JSONDecodeError, ImportError)\<close>, subclasses included.\<close>

definition caught_by_loader :: "exn \<Rightarrow> bool" where
  "caught_by_loader e =
     (e \<in> set [IOError, PermissionError, JSONDecodeError, ImportError, ModuleNotFoundError])"

text \<open>
  The \<open>for ext in EXTENSION_ROOT.iterdir()\<close> loop. The existence check stands before
  the \<open>try\<close>: an exception it raises leaves the function. \<open>ext_dict\<close> is the dict being
  filled (an assignment to a key already there keeps its place), \<open>next_id\<close> the identity
  the next new object gets.
\<close>

fun scan ::
  "(string \<Rightarrow> exn + pymodule) \<Rightarrow> dir_entry list \<Rightarrow> extension pydict \<Rightarrow> nat \<Rightarrow> event list \<Rightarrow>
   exn + (extension pydict \<times> nat \<times> event list)" where
  "scan import_module [] ext_dict next_id tr = Inr (ext_dict, next_id, tr)"
| "scan import_module (ext # rest) ext_dict next_id tr =
     (case exists_result ext of
        Inl e \<Rightarrow> Inl e
      | Inr False \<Rightarrow> scan import_module rest ext_dict next_id tr
      | Inr True \<Rightarrow>
          (case load_package import_module ext of
             Inr (key, instance_metadata) \<Rightarrow>
               scan import_module rest
                 (AList.update key \<lparr>ext_id = next_id, metadata = instance_metadata\<rparr> ext_dict)
                 (Suc next_id) tr
           | Inl e \<Rightarrow>
               if caught_by_loader e
               then scan import_module rest ext_dict next_id
                      (tr @ [Print_failed_loading (entry_name ext) e])
               else Inl e))"

text \<open>
  \<open>sorted(ext_dict.items(), key=lambda x: int(x[0]))\<close>: the keys are computed first
  (\<open>int\<close> raises \<open>ValueError\<close> on a key that is no integer), then the items are sorted by
  them, stably.
\<close>

fun int_keys :: "'v pydict \<Rightarrow> exn + (int \<times> string \<times> 'v) list" where
  "int_keys [] = Inr []"
| "int_keys ((k, v) # items) =
     (case py_int k of
        None \<Rightarrow> Inl ValueError
      | Some i \<Rightarrow> (case int_keys items of Inl e \<Rightarrow> Inl e | Inr ks \<Rightarrow> Inr ((i, k, v) # ks)))"

definition sorted_items :: "'v pydict \<Rightarrow> exn + 'v pydict" where
  "sorted_items ext_dict =
     (case int_keys ext_dict of Inl e \<Rightarrow> Inl e | Inr ks \<Rightarrow> Inr (map snd (sort_key fst ks)))"

text \<open>
  \<open>discover_extensions\<close>. \<open>root\<close> is what \<open>EXTENSION_ROOT.iterdir()\<close> yields, or the
  exception it raises. The result is the Registry, the next free identity and the trace.
\<close>

definition discover_extensions ::
  "(string \<Rightarrow> exn + pymodule) \<Rightarrow> exn + dir_entry list \<Rightarrow> nat \<Rightarrow>
   exn + (extension pydict \<times> nat \<times> event list)" where
  "discover_extensions import_module root next_id =
     (case root of
        Inl e \<Rightarrow> Inl e
      | Inr entries \<Rightarrow>
          (case scan import_module entries [] next_id [] of
             Inl e \<Rightarrow> Inl e
           | Inr (ext_dict, next_id', tr) \<Rightarrow>
               (case sorted_items ext_dict of
                  Inl e \<Rightarrow> Inl e
                | Inr registry \<Rightarrow> Inr (registry, next_id', tr))))"

text \<open>
  The batch result in the spec's words: the number of items whose install completed, the
  display names of the items whose install raised (in sequence order), and the events of
  the items in sequence order, numbered from 1.
\<close>

text \<open>Every exception that an install of the batch raises is of class \<open>Exception\<close>.\<close>

definition only_Exceptions ::
  "('w \<Rightarrow> extension \<Rightarrow> exn option \<times> 'w) \<Rightarrow> 'w \<Rightarrow> extension list \<Rightarrow> bool" where
  "only_Exceptions install w xs =
     list_all (\<lambda>r. case r of None \<Rightarrow> True | Some e \<Rightarrow> is_Exception e)
       (install_outcomes install w xs)"

definition completed_count ::
  "('w \<Rightarrow> extension \<Rightarrow> exn option \<times> 'w) \<Rightarrow> 'w \<Rightarrow> extension list \<Rightarrow> nat" where
  "completed_count install w xs =
     length (filter (\<lambda>r. r = None) (install_outcomes install w xs))"

definition raised_names ::
  "('w \<Rightarrow> extension \<Rightarrow> exn option \<times> 'w) \<Rightarrow> 'w \<Rightarrow> extension list \<Rightarrow> pyval list" where
  "raised_names install w xs =
     map (display_name \<circ> fst)
       (filter (\<lambda>(x, r). r \<noteq> None) (zip xs (install_outcomes install w xs)))"

definition batch_items ::
  "('w \<Rightarrow> extension \<Rightarrow> exn option \<times> 'w) \<Rightarrow> 'w \<Rightarrow> extension list \<Rightarrow> event list" where
  "batch_items install w xs =
     concat (map (item_events (length xs))
       (zip [1 ..< Suc (length xs)] (zip xs (install_outcomes install w xs))))"

section \<open>The selection and the Registry in the spec's words\<close>

text \<open>
  The elements of a list in the order of their first occurrence, each once: "order of
  first selection preserved".
\<close>

definition first_occurrences :: "'a list \<Rightarrow> 'a list" where
  "first_occurrences xs = rev (remdups (rev xs))"

text \<open>The instances that the tokens of a line name, in token order; unknown tokens name none.\<close>

definition token_exts :: "extension pydict \<Rightarrow> string list \<Rightarrow> extension list" where
  "token_exts extensions indices = List.map_filter (map_of extensions) indices"

definition line_exts :: "extension pydict \<Rightarrow> string \<Rightarrow> extension list" where
  "line_exts extensions line = token_exts extensions (py_split (py_strip line))"

text \<open>A line that is one of the two commands of the selection loop.\<close>

definition is_command :: "string \<Rightarrow> bool" where
  "is_command line = (py_lower (py_strip line) = ''done'' \<or> py_lower (py_strip line) = ''all'')"

text \<open>The result of the selection loop without its trace.\<close>

definition selected_of ::
  "exn + (extension list \<times> string list \<times> event list) \<Rightarrow> exn + (extension list \<times> string list)" where
  "selected_of r = map_sum id (\<lambda>(sel, rest, tr). (sel, rest)) r"

text \<open>The Registry's keys with the descriptors of their instances, identities left out.\<close>

definition descriptors :: "extension pydict \<Rightarrow> (string \<times> pyval pydict) list" where
  "descriptors d = map (\<lambda>(k, v). (k, metadata v)) d"







text \<open>The result of a scan or of discovery without its trace.\<close>

definition registry_of ::
  "exn + (extension pydict \<times> nat \<times> event list) \<Rightarrow> exn + (extension pydict \<times> nat)" where
  "registry_of r = map_sum id (\<lambda>(registry, next_id, tr). (registry, next_id)) r"

section \<open>Example data\<close>

text \<open>Five extensions; the installs of the second and the fourth raise.\<close>

definition ext5 :: "extension list" where
  "ext5 = map (\<lambda>(i, n). \<lparr>ext_id = i,
                          metadata = [(''index'', PInt (int i)), (''display_name'', PStr n)]\<rparr>)
            [(1, ''A''), (2, ''B''), (3, ''C''), (4, ''D''), (5, ''E'')]"

definition inst5 :: "nat \<Rightarrow> extension \<Rightarrow> exn option \<times> nat" where
  "inst5 w x = (if ext_id x = 2 \<or> ext_id x = 4 then Some RuntimeError else None, Suc w)"

text \<open>An install of the second that calls \<open>sys.exit\<close>.\<close>

definition inst_exit :: "nat \<Rightarrow> extension \<Rightarrow> exn option \<times> nat" where
  "inst_exit w x = (if ext_id x = 2 then Some SystemExit else None, Suc w)"

text \<open>
  A root directory with three packages and a child that is no package, an import system
  that finds every module, and the Registry discovery builds from them (identities in
  scan order).
\<close>

definition ext_module :: pymodule where
  "ext_module = [(''BaseExtension'', BaseExtension_class),
                 (''Extension'', Class \<lparr>extends_base = True, init_raises = None\<rparr>),
                 (''Path'', Not_a_class)]"

definition import_ok :: "string \<Rightarrow> exn + pymodule" where
  "import_ok module_path = Inr ext_module"

definition descriptor :: "pyval \<Rightarrow> string \<Rightarrow> pyval pydict" where
  "descriptor index name =
     [(''index'', index), (''module'', PStr ''ext''), (''display_name'', PStr name)]"

definition package :: "string \<Rightarrow> pyval \<Rightarrow> string \<Rightarrow> dir_entry" where
  "package dir index name =
     \<lparr>entry_name = dir, exists_result = Inr True,
      json_load = Inr (Document [(''metadata'', Json_dict (descriptor index name))])\<rparr>"

definition root3 :: "exn + dir_entry list" where
  "root3 = Inr [package ''c'' (PInt 3) ''C'', package ''a'' (PStr ''1'') ''A'',
                \<lparr>entry_name = ''__pycache__'', exists_result = Inr False, json_load = Inl IOError\<rparr>,
                package ''b'' (PInt 2) ''B'']"

definition ext_A :: extension where
  "ext_A = \<lparr>ext_id = 1, metadata = descriptor (PStr ''1'') ''A''\<rparr>"

definition ext_B :: extension where
  "ext_B = \<lparr>ext_id = 2, metadata = descriptor (PInt 2) ''B''\<rparr>"

definition ext_C :: extension where
  "ext_C = \<lparr>ext_id = 0, metadata = descriptor (PInt 3) ''C''\<rparr>"

definition registry3 :: "extension pydict" where
  "registry3 = [(''1'', ext_A), (''2'', ext_B), (''3'', ext_C)]"

text \<open>A \<open>get_confirm\<close> that reads one line and takes everything but \<open>n\<close> for yes.\<close>

definition confirm_y :: "string list \<Rightarrow> bool \<times> string list" where
  "confirm_y stdin =
     (case stdin of
        [] \<Rightarrow> (True, [])
      | answer # rest \<Rightarrow> (py_lower (py_strip answer) \<noteq> ''n'', rest))"


text \<open>
  Modules with a constructor that raises, with two matching types and with none, an
  import system that finds them by package directory, and a package whose metadata
  document does not parse.
\<close>

definition broken_module :: pymodule where
  "broken_module = [(''BaseExtension'', BaseExtension_class),
                    (''Broken'', Class \<lparr>extends_base = True, init_raises = Some TypeError\<rparr>)]"

definition two_module :: pymodule where
  "two_module = [(''ZExtension'', Class \<lparr>extends_base = True, init_raises = Some RuntimeError\<rparr>),
                 (''BaseExtension'', BaseExtension_class),
                 (''AExtension'', Class \<lparr>extends_base = True, init_raises = None\<rparr>)]"

definition empty_module :: pymodule where
  "empty_module = [(''BaseExtension'', BaseExtension_class), (''helper'', Not_a_class)]"

definition import_by_dir :: "string \<Rightarrow> exn + pymodule" where
  "import_by_dir module_path =
     (if module_path = ''kiauh.extensions.broken.ext'' then Inr broken_module
      else if module_path = ''kiauh.extensions.two.ext'' then Inr two_module
      else if module_path = ''kiauh.extensions.none.ext'' then Inr empty_module
      else if module_path = ''kiauh.extensions.missing.ext'' then Inl ModuleNotFoundError
      else Inr ext_module)"

text \<open>A package directory that cannot be searched: the existence check raises.\<close>

definition unsearchable :: dir_entry where
  "unsearchable =
     \<lparr>entry_name = ''locked'', exists_result = Inl PermissionError, json_load = Inl IOError\<rparr>"

definition unreadable :: dir_entry where
  "unreadable = \<lparr>entry_name = ''bad'', exists_result = Inr True, json_load = Inl JSONDecodeError\<rparr>"

section \<open>Properties of the batch executor\<close>

lemma install_loop_eq:
  "only_Exceptions install w xs \<Longrightarrow>
   install_loop install t i xs s f tr w =
     Inr (s + length (filter (\<lambda>r. r = None) (install_outcomes install w xs)),
          f @ map (display_name \<circ> fst)
                (filter (\<lambda>(x, r). r \<noteq> None) (zip xs (install_outcomes install w xs))),
          tr @ concat (map (item_events t)
                (zip [i ..< i + length xs] (zip xs (install_outcomes install w xs)))),
          final_world install w xs)"
proof (induction xs arbitrary: i s f tr w)
  case Nil
  then show ?case by simp
next
  case (Cons x xs)
  obtain r w' where rw: "install w x = (r, w')" by (cases "install w x")
  have up: "[i ..< i + length (x # xs)] = i # [Suc i ..< Suc i + length xs]"
    by (simp add: upt_rec)
  from Cons.prems rw have rest: "only_Exceptions install w' xs"
    by (simp add: only_Exceptions_def)
  show ?case
  proof (cases r)
    case None
    with rw Cons.IH [OF rest, of "Suc i" "Suc s" f] show ?thesis
      unfolding up by (simp add: item_events_def Let_def)
  next
    case (Some e)
    with Cons.prems rw have "is_Exception e" by (simp add: only_Exceptions_def)
    with Some rw Cons.IH [OF rest, of "Suc i" s] show ?thesis
      unfolding up by (simp add: item_events_def Let_def)
  qed
qed

lemma length_install_outcomes: "length (install_outcomes install w xs) = length xs"
  by (induction xs arbitrary: w) (auto split: prod.splits)

lemma calls_of_items:
  "length ns = length xs \<Longrightarrow> length xs = length rs \<Longrightarrow>
   filter is_call (concat (map (item_events t) (zip ns (zip xs rs)))) = map Call_install xs"
  by (induction ns xs rs rule: list_induct3)
     (auto simp: item_events_def split: option.splits)

lemma completed_plus_raised:
  "completed_count install w xs + length (raised_names install w xs) = length xs"
proof -
  have "length (filter (\<lambda>r. r = None) rs) +
        length (filter (\<lambda>(x, r). r \<noteq> None) (zip ys rs)) = length ys"
    if "length rs = length ys" for rs :: "exn option list" and ys :: "extension list"
    using that by (induction rs ys rule: list_induct2) auto
  from this [OF length_install_outcomes] show ?thesis
    by (simp add: completed_count_def raised_names_def)
qed

text \<open>
  C3, as stated, fails: the install of the second of five items raises \<open>SystemExit\<close>,
  which \<open>except Exception\<close> does not catch. It leaves the batch executor after the second
  install call: the third, fourth and fifth items are never attempted and no summary is
  printed.
\<close>

theorem system_exit_stops_the_batch:
  "install_selected_extensions inst_exit ext5 0 =
     Inl (SystemExit,
          [Print_starting, Print_installing 5,
           Print_progress 1 5 (PStr ''A''), Call_install (ext5 ! 0),
           Log_ok (PStr ''A''), Print_blank,
           Print_progress 2 5 (PStr ''B''), Call_install (ext5 ! 1)],
          2)"
  by (simp add: install_selected_extensions_def ext5_def inst_exit_def display_name_def
      dict_get_def Let_def)

text \<open>
  C3, amended. When every exception the installs raise is of class \<open>Exception\<close>, the
  batch executor returns, for every selection sequence (the empty one included): its trace
  is the two opening lines, then for each item in sequence order the progress marker
  \<open>i/N\<close> (\<open>i\<close> from 1) followed by the install call, its success or failure report and a
  blank line, then the summary. So every item's install is called, in sequence order,
  whatever the earlier installs did. The success count is the number of installs that did
  not raise, the failure list is the display names of the items whose install raised, in
  sequence order, and the two add up to \<open>N\<close>.
\<close>

theorem batch_executor_isolates_failures:
  assumes "only_Exceptions install w extensions"
  shows "install_selected_extensions install extensions w =
     Inr (completed_count install w extensions,
          raised_names install w extensions,
          [Print_starting, Print_installing (length extensions)] @
            batch_items install w extensions @
            installation_summary (length extensions)
              (completed_count install w extensions) (raised_names install w extensions),
          final_world install w extensions)
   \<and> filter is_call (batch_items install w extensions) = map Call_install extensions
   \<and> completed_count install w extensions + length (raised_names install w extensions)
       = length extensions"
proof -
  have calls: "filter is_call (batch_items install w extensions) = map Call_install extensions"
    unfolding batch_items_def
    by (rule calls_of_items) (simp_all add: length_install_outcomes del: upt_Suc)
  have run: "install_selected_extensions install extensions w =
     Inr (completed_count install w extensions,
          raised_names install w extensions,
          [Print_starting, Print_installing (length extensions)] @
            batch_items install w extensions @
            installation_summary (length extensions)
              (completed_count install w extensions) (raised_names install w extensions),
          final_world install w extensions)"
    by (simp add: install_selected_extensions_def install_loop_eq [OF assms] completed_count_def
        raised_names_def batch_items_def Let_def)
  show ?thesis
    using run calls completed_plus_raised [of install w extensions] by simp
qed

text \<open>
  Five items, the second and the fourth raising \<open>RuntimeError\<close>: three successes, the
  failure list is the two names in order, all five installs are called in order.
\<close>

theorem batch_executor_isolates_failures_witness:
  "install_selected_extensions inst5 ext5 0 =
     Inr (3, [PStr ''B'', PStr ''D''],
          [Print_starting, Print_installing (length ext5)] @ batch_items inst5 0 ext5 @
            installation_summary (length ext5) 3 [PStr ''B'', PStr ''D''],
          5)
   \<and> filter is_call (batch_items inst5 0 ext5) = map Call_install ext5
   \<and> completed_count inst5 0 ext5 + length (raised_names inst5 0 ext5) = length ext5"
proof -
  have a: "only_Exceptions inst5 0 ext5"
    by (simp add: only_Exceptions_def ext5_def inst5_def)
  have b: "completed_count inst5 0 ext5 = 3"
    by (simp add: completed_count_def ext5_def inst5_def)
  have c: "raised_names inst5 0 ext5 = [PStr ''B'', PStr ''D'']"
    by (simp add: raised_names_def ext5_def inst5_def display_name_def dict_get_def)
  have d: "final_world inst5 0 ext5 = 5"
    by (simp add: ext5_def inst5_def)
  from batch_executor_isolates_failures [OF a] show ?thesis
    by (simp only: b c d)
qed

section \<open>Properties of the selection engine\<close>

lemma remdups_append_member: "x \<in> set ys \<Longrightarrow> remdups (xs @ x # ys) = remdups (xs @ ys)"
  by (induction xs) auto

lemma remdups_append_remdups_left: "remdups (remdups xs @ ys) = remdups (xs @ ys)"
  by (induction xs) auto

lemma remdups_append_remdups_right: "remdups (xs @ remdups ys) = remdups (xs @ ys)"
  by (induction xs) auto

lemma first_occurrences_distinct: "distinct xs \<Longrightarrow> first_occurrences xs = xs"
  by (simp add: first_occurrences_def distinct_remdups_id)

lemma distinct_first_occurrences: "distinct (first_occurrences xs)"
  by (simp add: first_occurrences_def)

lemma set_first_occurrences: "set (first_occurrences xs) = set xs"
  by (simp add: first_occurrences_def)

lemma first_occurrences_idem_left:
  "first_occurrences (first_occurrences xs @ ys) = first_occurrences (xs @ ys)"
  by (simp add: first_occurrences_def remdups_append_remdups_right)

lemma first_occurrences_idem_right:
  "first_occurrences (xs @ first_occurrences ys) = first_occurrences (xs @ ys)"
  by (simp add: first_occurrences_def remdups_append_remdups_left)

lemma add_selected_eq:
  "distinct sel \<Longrightarrow> add_selected es sel = first_occurrences (sel @ es)"
proof (induction es arbitrary: sel)
  case Nil
  then show ?case by (simp add: first_occurrences_distinct)
next
  case (Cons e es)
  show ?case
  proof (cases "e \<in> set sel")
    case True
    then have "remdups (rev es @ e # rev sel) = remdups (rev es @ rev sel)"
      by (simp add: remdups_append_member)
    with True Cons show ?thesis by (simp add: first_occurrences_def)
  next
    case False
    with Cons.prems have "distinct (sel @ [e])" by simp
    from Cons.IH [OF this] False show ?thesis by simp
  qed
qed

lemma select_tokens_selected:
  "fst (select_tokens extensions indices temp tr) =
   add_selected (token_exts extensions indices) temp"
  by (induction indices arbitrary: temp tr)
     (auto simp: token_exts_def List.map_filter_simps split: option.splits)

lemma parse_selection_selected:
  assumes "distinct sel"
  shows "fst (parse_selection extensions indices sel tr) =
         first_occurrences (sel @ token_exts extensions indices)"
proof -
  obtain temp tr1 where st: "select_tokens extensions indices [] tr = (temp, tr1)"
    by (cases "select_tokens extensions indices [] tr")
  have temp: "temp = first_occurrences (token_exts extensions indices)"
    using select_tokens_selected [of extensions indices "[]" tr] st
    by (simp add: add_selected_eq)
  show ?thesis
  proof (cases "temp = []")
    case True
    then have "token_exts extensions indices = []"
      using temp set_first_occurrences [of "token_exts extensions indices"] by simp
    with True st assms show ?thesis
      by (simp add: parse_selection_def first_occurrences_distinct)
  next
    case False
    with st assms show ?thesis
      by (simp add: parse_selection_def Let_def add_selected_eq temp first_occurrences_idem_right)
  qed
qed

lemma loop_done:
  "py_lower (py_strip line) = ''done'' \<Longrightarrow>
   selection_loop extensions (line # rest) sel tr = Inr (sel, rest, tr @ [Call_input])"
  by simp

lemma loop_all:
  "py_lower (py_strip line) = ''all'' \<Longrightarrow>
   selection_loop extensions (line # rest) sel tr =
     Inr (map snd extensions, rest, tr @ [Call_input, Print_selected_all (length extensions)])"
  by simp

lemma loop_other:
  "\<not> is_command line \<Longrightarrow>
   selection_loop extensions (line # rest) sel tr =
     selection_loop extensions rest
       (fst (parse_selection extensions (py_split (py_strip line)) sel (tr @ [Call_input])))
       (snd (parse_selection extensions (py_split (py_strip line)) sel (tr @ [Call_input])))"
  by (simp add: is_command_def split: prod.splits)

lemma loop_returns:
  assumes "distinct sel" "selection_loop extensions stdin sel tr = Inr (selected, rest, tr')"
  shows "\<exists>lines fin. stdin = lines @ fin # rest \<and> (\<forall>l\<in>set lines. \<not> is_command l) \<and>
           (if py_lower (py_strip fin) = ''done''
            then selected = first_occurrences (sel @ concat (map (line_exts extensions) lines))
            else py_lower (py_strip fin) = ''all'' \<and> selected = map snd extensions)"
  using assms
proof (induction stdin arbitrary: sel tr)
  case Nil
  then show ?case by simp
next
  case (Cons line stdin)
  show ?case
  proof (cases "is_command line")
    case True
    show ?thesis
    proof (cases "py_lower (py_strip line) = ''done''")
      case d: True
      with Cons.prems have "selected = sel" "rest = stdin" by simp_all
      with d Cons.prems(1) show ?thesis
        by (intro exI [of _ "[]"] exI [of _ line]) (simp add: first_occurrences_distinct)
    next
      case nd: False
      with True have a: "py_lower (py_strip line) = ''all''" by (simp add: is_command_def)
      with Cons.prems have "selected = map snd extensions" "rest = stdin" by simp_all
      with a show ?thesis
        by (intro exI [of _ "[]"] exI [of _ line]) simp
    qed
  next
    case False
    let ?p = "parse_selection extensions (py_split (py_strip line)) sel (tr @ [Call_input])"
    have sel1: "fst ?p = first_occurrences (sel @ line_exts extensions line)"
      using Cons.prems(1) by (simp add: parse_selection_selected line_exts_def)
    have run: "selection_loop extensions stdin (fst ?p) (snd ?p) = Inr (selected, rest, tr')"
      using Cons.prems(2) loop_other [OF False] by simp
    have "distinct (fst ?p)" by (simp add: sel1 distinct_first_occurrences)
    from Cons.IH [OF this run] obtain lines fin where
      st: "stdin = lines @ fin # rest" and nc: "\<forall>l\<in>set lines. \<not> is_command l" and
      res: "if py_lower (py_strip fin) = ''done''
            then selected = first_occurrences (fst ?p @ concat (map (line_exts extensions) lines))
            else py_lower (py_strip fin) = ''all'' \<and> selected = map snd extensions"
      by blast
    have "line # stdin = (line # lines) @ fin # rest" using st by simp
    moreover have "\<forall>l\<in>set (line # lines). \<not> is_command l" using nc False by simp
    moreover have "if py_lower (py_strip fin) = ''done''
            then selected = first_occurrences (sel @ concat (map (line_exts extensions) (line # lines)))
            else py_lower (py_strip fin) = ''all'' \<and> selected = map snd extensions"
      using res by (simp add: sel1 first_occurrences_idem_left)
    ultimately show ?thesis by blast
  qed
qed

lemma select_tokens_calls:
  "filter is_call (snd (select_tokens extensions indices temp tr)) = filter is_call tr"
  by (induction indices arbitrary: temp tr) (auto split: option.splits)

lemma parse_selection_calls:
  "filter is_call (snd (parse_selection extensions indices sel tr)) = filter is_call tr"
proof -
  have "filter is_call (map (Print_item \<circ> display_name) xs) = []" for xs
    by (induction xs) auto
  then show ?thesis
    using select_tokens_calls [of extensions indices "[]" tr]
    by (auto simp: parse_selection_def Let_def split: prod.splits)
qed

lemma parse_selection_fst:
  "fst (parse_selection extensions indices sel tr) =
     (if add_selected (token_exts extensions indices) [] \<noteq> []
      then add_selected (add_selected (token_exts extensions indices) []) sel else sel)"
  using select_tokens_selected [of extensions indices "[]" tr]
  by (auto simp: parse_selection_def Let_def split: prod.splits)

lemma loop_calls:
  "selection_loop extensions stdin sel tr = Inr (selected, rest, tr') \<Longrightarrow>
   filter is_call tr' = filter is_call tr"
proof (induction stdin arbitrary: sel tr)
  case Nil
  then show ?case by simp
next
  case (Cons line stdin)
  show ?case
  proof (cases "is_command line")
    case True
    with Cons.prems show ?thesis
      by (auto simp: is_command_def split: if_splits)
  next
    case False
    let ?p = "parse_selection extensions (py_split (py_strip line)) sel (tr @ [Call_input])"
    have "selection_loop extensions stdin (fst ?p) (snd ?p) = Inr (selected, rest, tr')"
      using Cons.prems loop_other [OF False] by simp
    from Cons.IH [OF this] show ?thesis
      by (simp add: parse_selection_calls)
  qed
qed

lemma loop_selected_any_trace:
  "selected_of (selection_loop extensions stdin sel tr) =
   selected_of (selection_loop extensions stdin sel tr2)"
proof (induction stdin arbitrary: sel tr tr2)
  case Nil
  then show ?case by (simp add: selected_of_def)
next
  case (Cons line stdin)
  show ?case
  proof (cases "is_command line")
    case True
    then show ?thesis by (auto simp: is_command_def selected_of_def)
  next
    case False
    show ?thesis
      unfolding loop_other [OF False] parse_selection_fst by (rule Cons.IH)
  qed
qed

lemma loop_prefix:
  "\<forall>l\<in>set lines. \<not> is_command l \<Longrightarrow>
   \<exists>sel' tr'. selection_loop extensions (lines @ stdin) sel tr =
              selection_loop extensions stdin sel' tr'"
proof (induction lines arbitrary: sel tr)
  case Nil
  then show ?case by auto
next
  case (Cons line lines)
  then have nc: "\<not> is_command line" and rest: "\<forall>l\<in>set lines. \<not> is_command l" by simp_all
  show ?case
    using Cons.IH [OF rest] loop_other [OF nc, of extensions "lines @ stdin"] by simp
qed

lemma loop_forward:
  "\<forall>l\<in>set lines. \<not> is_command l \<Longrightarrow> distinct sel \<Longrightarrow>
   selected_of (selection_loop extensions (lines @ stdin) sel tr) =
   selected_of (selection_loop extensions stdin
      (first_occurrences (sel @ concat (map (line_exts extensions) lines))) tr)"
proof (induction lines arbitrary: sel tr)
  case Nil
  then show ?case by (simp add: first_occurrences_distinct)
next
  case (Cons line lines)
  then have nc: "\<not> is_command line" and rest: "\<forall>l\<in>set lines. \<not> is_command l" by simp_all
  let ?p = "parse_selection extensions (py_split (py_strip line)) sel (tr @ [Call_input])"
  have sel1: "fst ?p = first_occurrences (sel @ line_exts extensions line)"
    using Cons.prems(2) by (simp add: parse_selection_selected line_exts_def)
  have d: "distinct (fst ?p)" by (simp add: sel1 distinct_first_occurrences)
  have eq: "first_occurrences (fst ?p @ concat (map (line_exts extensions) lines)) =
            first_occurrences (sel @ concat (map (line_exts extensions) (line # lines)))"
    by (simp add: sel1 first_occurrences_idem_left)
  have "selected_of (selection_loop extensions ((line # lines) @ stdin) sel tr) =
        selected_of (selection_loop extensions (lines @ stdin) (fst ?p) (snd ?p))"
    using loop_other [OF nc, of extensions "lines @ stdin"] by simp
  also have "\<dots> = selected_of (selection_loop extensions stdin
      (first_occurrences (fst ?p @ concat (map (line_exts extensions) lines))) (snd ?p))"
    by (rule Cons.IH [OF rest d])
  also have "\<dots> = selected_of (selection_loop extensions stdin
      (first_occurrences (sel @ concat (map (line_exts extensions) (line # lines)))) tr)"
    unfolding eq by (rule loop_selected_any_trace)
  finally show ?case .
qed

lemma token_exts_invalid:
  "map_of extensions idx = None \<Longrightarrow>
   token_exts extensions (pre @ idx # post) = token_exts extensions (pre @ post)"
  by (induction pre) (simp_all add: token_exts_def List.map_filter_simps split: option.splits)

lemma select_tokens_append:
  "select_tokens extensions (pre @ post) temp tr =
     (case select_tokens extensions pre temp tr of
        (t1, tr1) \<Rightarrow> select_tokens extensions post t1 tr1)"
  by (induction pre arbitrary: temp tr) (auto split: option.splits)

section \<open>Properties of the loader\<close>

subsection \<open>dict assignment\<close>

lemma update_keys: "fst ` set (AList.update k v d) = insert k (fst ` set d)"
  by (induction d) auto

lemma update_values: "set (map snd (AList.update k v d)) \<subseteq> insert v (set (map snd d))"
  by (induction d) auto

lemma update_distinct_ids:
  "distinct (map (f \<circ> snd) d) \<Longrightarrow> f v \<notin> f ` snd ` set d \<Longrightarrow>
   distinct (map (f \<circ> snd) (AList.update k v d))"
proof (induction d)
  case Nil
  then show ?case by simp
next
  case (Cons p d)
  have sub: "snd x = v \<or> snd x \<in> snd ` set d" if "x \<in> set (AList.update k v d)" for x
    using update_values [of k v d] that by auto
  obtain a b where p: "p = (a, b)" by (cases p)
  show ?case
  proof (cases "a = k")
    case True
    with p Cons.prems show ?thesis by (auto simp: image_iff)
  next
    case False
    have "f b \<notin> (f \<circ> snd) ` set (AList.update k v d)"
    proof
      assume "f b \<in> (f \<circ> snd) ` set (AList.update k v d)"
      then obtain x where x: "x \<in> set (AList.update k v d)" "f b = f (snd x)" by auto
      from sub [OF x(1)] show False
      proof
        assume "snd x = v"
        with x(2) p Cons.prems(2) show False by (auto simp: image_iff)
      next
        assume "snd x \<in> snd ` set d"
        with x(2) p Cons.prems(1) show False by (auto simp: image_iff)
      qed
    qed
    moreover have "distinct (map (f \<circ> snd) (AList.update k v d))"
      using Cons.IH Cons.prems by (auto simp: comp_def)
    ultimately show ?thesis using p False by (simp add: comp_def)
  qed
qed

lemma descriptors_update:
  "descriptors (AList.update k v d) = AList.update k (metadata v) (descriptors d)"
  by (induction d) (auto simp: descriptors_def)

subsection \<open>the scan\<close>

lemma exists_cases:
  "(\<exists>e. exists_result ext = Inl e) \<or> exists_result ext = Inr False \<or> metadata_exists ext"
  by (cases "exists_result ext") (auto simp: metadata_exists_def)

lemma scan_raises: "exists_result ext = Inl e \<Longrightarrow> scan imp (ext # es) d n tr = Inl e"
  by simp

lemma scan_skips:
  "exists_result ext = Inr False \<Longrightarrow> scan imp (ext # es) d n tr = scan imp es d n tr"
  by simp

lemma scan_append:
  "scan imp (pre @ post) d n tr =
     (case scan imp pre d n tr of
        Inl e \<Rightarrow> Inl e
      | Inr (d1, n1, tr1) \<Rightarrow> scan imp post d1 n1 tr1)"
  by (induction pre arbitrary: d n tr) (auto split: sum.splits prod.splits bool.splits)

lemma scan_any_trace:
  "registry_of (scan imp es d n tr) = registry_of (scan imp es d n tr2)"
  by (induction es arbitrary: d n tr tr2)
     (auto simp: registry_of_def split: sum.splits prod.splits bool.splits)

lemma scan_invariant:
  assumes "scan imp es d n tr = Inr (d', n', tr')"
    and "distinct (map fst d)" "distinct (map (ext_id \<circ> snd) d)" "\<forall>v\<in>snd ` set d. ext_id v < n"
  shows "distinct (map fst d') \<and> distinct (map (ext_id \<circ> snd) d') \<and> (\<forall>v\<in>snd ` set d'. ext_id v < n')"
  using assms
proof (induction es arbitrary: d n tr)
  case Nil
  then show ?case by simp
next
  case (Cons ext es)
  consider (raises) e where "exists_result ext = Inl e"
    | (skipped) "exists_result ext = Inr False" | (loaded) "metadata_exists ext"
    using exists_cases by blast
  then show ?case
  proof cases
    case raises
    with Cons.prems show ?thesis by simp
  next
    case skipped
    with Cons.prems Cons.IH [of d n tr] show ?thesis by simp
  next
    case loaded
    then have True: "exists_result ext = Inr True" by (simp add: metadata_exists_def)
    show ?thesis
    proof (cases "load_package imp ext")
      case (Inl e)
      with True Cons.prems Cons.IH [of d n "tr @ [Print_failed_loading (entry_name ext) e]"]
      show ?thesis by (simp split: if_splits)
    next
      case (Inr km)
      obtain key m where km: "km = (key, m)" by (cases km)
      let ?v = "\<lparr>ext_id = n, metadata = m\<rparr>"
      let ?d = "AList.update key ?v d"
      have run: "scan imp es ?d (Suc n) tr = Inr (d', n', tr')"
        using Cons.prems(1) True Inr km by simp
      have a: "distinct (map fst ?d)" using Cons.prems(2) by (rule distinct_update)
      have "ext_id ?v \<notin> ext_id ` snd ` set d" using Cons.prems(4) by auto
      then have b: "distinct (map (ext_id \<circ> snd) ?d)"
        using Cons.prems(3) by (intro update_distinct_ids)
      have c: "\<forall>v\<in>snd ` set ?d. ext_id v < Suc n"
      proof
        fix v assume "v \<in> snd ` set ?d"
        then have "v \<in> insert ?v (set (map snd d))" using update_values [of key ?v d] by auto
        then show "ext_id v < Suc n" using Cons.prems(4) by (auto simp: less_Suc_eq)
      qed
      from Cons.IH [OF run a b c] show ?thesis .
    qed
  qed
qed

lemma scan_descriptors:
  "descriptors d1 = descriptors d2 \<Longrightarrow>
   map_sum id (\<lambda>(d, n, t). (descriptors d, t)) (scan imp es d1 n1 tr) =
   map_sum id (\<lambda>(d, n, t). (descriptors d, t)) (scan imp es d2 n2 tr)"
proof (induction es arbitrary: d1 d2 n1 n2 tr)
  case Nil
  then show ?case by simp
next
  case (Cons ext es)
  consider (raises) e where "exists_result ext = Inl e"
    | (skipped) "exists_result ext = Inr False" | (loaded) "metadata_exists ext"
    using exists_cases by blast
  then show ?case
  proof cases
    case raises
    then show ?thesis by simp
  next
    case skipped
    with Cons show ?thesis by simp
  next
    case loaded
    then have True: "exists_result ext = Inr True" by (simp add: metadata_exists_def)
    show ?thesis
    proof (cases "load_package imp ext")
      case (Inl e)
      with True Cons show ?thesis by simp
    next
      case (Inr km)
      obtain key m where km: "km = (key, m)" by (cases km)
      have "descriptors (AList.update key \<lparr>ext_id = n1, metadata = m\<rparr> d1) =
            descriptors (AList.update key \<lparr>ext_id = n2, metadata = m\<rparr> d2)"
        using Cons.prems by (simp add: descriptors_update)
      from Cons.IH [OF this] True Inr km show ?thesis by simp
    qed
  qed
qed

lemma scan_trace_grows:
  "scan imp es d n tr = Inr (d', n', tr') \<Longrightarrow> set tr \<subseteq> set tr'"
proof (induction es arbitrary: d n tr)
  case Nil
  then show ?case by simp
next
  case (Cons ext es)
  consider (raises) e where "exists_result ext = Inl e"
    | (skipped) "exists_result ext = Inr False" | (loaded) "metadata_exists ext"
    using exists_cases by blast
  then show ?case
  proof cases
    case raises
    with Cons.prems show ?thesis by simp
  next
    case skipped
    with Cons show ?thesis by simp
  next
    case loaded
    then have True: "exists_result ext = Inr True" by (simp add: metadata_exists_def)
    show ?thesis
    proof (cases "load_package imp ext")
      case (Inl e)
      with True Cons.prems have
        "scan imp es d n (tr @ [Print_failed_loading (entry_name ext) e]) = Inr (d', n', tr')"
        by (simp split: if_splits)
      from Cons.IH [OF this] show ?thesis by simp
    next
      case (Inr km)
      with True Cons show ?thesis by (auto split: prod.splits)
    qed
  qed
qed

subsection \<open>sorting\<close>

lemma int_keys_items: "int_keys d = Inr ks \<Longrightarrow> map snd ks = d"
  by (induction d arbitrary: ks) (auto split: option.splits sum.splits)

lemma int_keys_values:
  "int_keys d = Inr ks \<Longrightarrow> x \<in> set ks \<Longrightarrow> py_int (fst (snd x)) = Some (fst x)"
  by (induction d arbitrary: ks) (auto split: option.splits sum.splits)

lemma int_keys_ok:
  "\<forall>k\<in>set (map fst d). py_int k \<noteq> None \<Longrightarrow> \<exists>ks. int_keys d = Inr ks"
  by (induction d) (auto split: option.splits sum.splits)

lemma int_keys_map:
  "int_keys (map (\<lambda>(k, v). (k, g v)) d) =
   map_sum id (map (\<lambda>(i, k, v). (i, k, g v))) (int_keys d)"
  by (induction d) (auto split: option.splits sum.splits)

lemma insort_key_map:
  "(\<And>x. f' (h x) = f x) \<Longrightarrow> map h (insort_key f x ys) = insort_key f' (h x) (map h ys)"
  by (induction ys) auto

lemma sort_key_map:
  "(\<And>x. f' (h x) = f x) \<Longrightarrow> map h (sort_key f xs) = sort_key f' (map h xs)"
  by (induction xs) (simp_all add: insort_key_map [where f' = f'])

lemma sorted_items_map:
  "sorted_items (map (\<lambda>(k, v). (k, g v)) d) =
   map_sum id (map (\<lambda>(k, v). (k, g v))) (sorted_items d)"
proof (cases "int_keys d")
  case (Inl e)
  then show ?thesis by (simp add: sorted_items_def int_keys_map)
next
  case (Inr ks)
  have "sort_key fst (map (\<lambda>(i, k, v). (i, k, g v)) ks) =
        map (\<lambda>(i, k, v). (i, k, g v)) (sort_key fst ks)"
    by (rule sort_key_map [symmetric]) auto
  with Inr show ?thesis
    by (simp add: sorted_items_def int_keys_map split_beta)
qed

lemma sorted_items_Inr:
  assumes "sorted_items d = Inr reg"
  shows "mset reg = mset d" and "sorted (map (the \<circ> py_int \<circ> fst) reg)"
proof -
  from assms obtain ks where ks: "int_keys d = Inr ks" and reg: "reg = map snd (sort_key fst ks)"
    by (auto simp: sorted_items_def split: sum.splits)
  have d: "map snd ks = d" by (rule int_keys_items [OF ks])
  have ik: "py_int (fst (snd x)) = Some (fst x)" if "x \<in> set ks" for x
    by (rule int_keys_values [OF ks that])
  have "mset reg = mset (map snd ks)" unfolding reg by simp
  then show "mset reg = mset d" using d by simp
  have "map (the \<circ> py_int \<circ> fst) reg = map fst (sort_key fst ks)"
    unfolding reg using ik by simp
  then show "sorted (map (the \<circ> py_int \<circ> fst) reg)" by simp
qed

subsection \<open>discovery\<close>

lemma discover_Inr:
  "discover_extensions imp root n = Inr (reg, n', tr) \<Longrightarrow>
   \<exists>es d. root = Inr es \<and> scan imp es [] n [] = Inr (d, n', tr) \<and> sorted_items d = Inr reg"
  by (auto simp: discover_extensions_def split: sum.splits prod.splits)

lemma discover_wellformed:
  assumes "discover_extensions imp root n = Inr (reg, n', tr)"
  shows "distinct (map fst reg)" and "distinct (map snd reg)"
    and "sorted (map (the \<circ> py_int \<circ> fst) reg)"
proof -
  from discover_Inr [OF assms] obtain es d where
    sc: "scan imp es [] n [] = Inr (d, n', tr)" and so: "sorted_items d = Inr reg" by blast
  from scan_invariant [OF sc] have dk: "distinct (map fst d)"
    and di: "distinct (map (ext_id \<circ> snd) d)" by simp_all
  have "map (ext_id \<circ> snd) d = map ext_id (map snd d)" by simp
  with di have "distinct (map ext_id (map snd d))" by (simp only:)
  then have dv: "distinct (map snd d)" by (simp only: distinct_map)
  have m: "mset reg = mset d" by (rule sorted_items_Inr [OF so])
  from m have "mset (map fst reg) = mset (map fst d)" "mset (map snd reg) = mset (map snd d)"
    by simp_all
  then show "distinct (map fst reg)" "distinct (map snd reg)"
    using dk dv by (metis mset_eq_imp_distinct_iff)+
  show "sorted (map (the \<circ> py_int \<circ> fst) reg)" by (rule sorted_items_Inr [OF so])
qed

lemma discover_descriptors:
  "map_sum id (\<lambda>(reg, n, t). (descriptors reg, t)) (discover_extensions imp root n1) =
   map_sum id (\<lambda>(reg, n, t). (descriptors reg, t)) (discover_extensions imp root n2)"
proof (cases root)
  case (Inl e)
  then show ?thesis by (simp add: discover_extensions_def)
next
  case (Inr es)
  have sc: "map_sum id (\<lambda>(d, n, t). (descriptors d, t)) (scan imp es [] n1 []) =
            map_sum id (\<lambda>(d, n, t). (descriptors d, t)) (scan imp es [] n2 [])"
    by (rule scan_descriptors) simp
  have so: "map_sum id descriptors (sorted_items d) = sorted_items (descriptors d)" for d
    unfolding descriptors_def by (simp add: sorted_items_map)
  show ?thesis
  proof (cases "scan imp es [] n1 []")
    case l1: (Inl e)
    with sc obtain e' where "scan imp es [] n2 [] = Inl e'" "e' = e"
      by (cases "scan imp es [] n2 []") auto
    with l1 Inr show ?thesis by (simp add: discover_extensions_def)
  next
    case r1: (Inr r)
    obtain d1 m1 t1 where r: "r = (d1, m1, t1)" by (cases r)
    from sc r1 r obtain d2 m2 where
      r2: "scan imp es [] n2 [] = Inr (d2, m2, t1)" and dd: "descriptors d2 = descriptors d1"
      by (cases "scan imp es [] n2 []") auto
    from so [of d1] so [of d2] dd have
      "map_sum id descriptors (sorted_items d1) = map_sum id descriptors (sorted_items d2)" by simp
    then show ?thesis
      using Inr r1 r r2
      by (cases "sorted_items d1"; cases "sorted_items d2") (auto simp: discover_extensions_def)
  qed
qed

subsection \<open>integers and their decimal text\<close>

















subsection \<open>valid packages\<close>





lemma descriptors_keys: "fst ` set (descriptors d) = fst ` set d"
  by (induction d) (auto simp: descriptors_def)




section \<open>The claims about the selection engine\<close>

lemmas loader_defs = discover_extensions_def load_package_def getmembers_def predicate_def
  isclass_def issubclass_BaseExtension_def construct_def dict_get_def sorted_items_def
  py_int_def int_strip_def is_c_space_def parse_digits_def is_digit_def digit_val_def
  str_int_def str_nat.simps caught_by_loader_def metadata_exists_def

lemmas example_defs = root3_def registry3_def package_def descriptor_def import_ok_def
  ext_module_def ext_A_def ext_B_def ext_C_def

lemmas selection_defs = parse_selection_def py_split_def py_strip_def py_lower_def
  lower_char_def is_space_def display_name_def dict_get_def

lemma discover_root3: "discover_extensions import_ok root3 0 = Inr (registry3, 3, [])"
  by (simp add: loader_defs example_defs)

lemma select_tokens_trace_grows:
  "set tr \<subseteq> set (snd (select_tokens extensions indices temp tr))"
proof (induction indices arbitrary: temp tr)
  case Nil
  then show ?case by simp
next
  case (Cons idx indices)
  show ?case
  proof (cases "map_of extensions idx")
    case None
    with Cons [where tr = "tr @ [Print_invalid_number idx]" and temp = temp]
    show ?thesis by simp
  next
    case (Some ext)
    with Cons [where tr = "tr @ [Print_added (display_name ext)]" and temp = "temp @ [ext]"]
      Cons [where tr = "tr @ [Print_already_selected (display_name ext)]" and temp = temp]
    show ?thesis by simp
  qed
qed

lemma select_tokens_invalid:
  assumes "map_of extensions idx = None"
  shows "select_tokens extensions (pre @ idx # post) temp tr =
         (case select_tokens extensions pre temp tr of
            (t1, tr1) \<Rightarrow> select_tokens extensions post t1 (tr1 @ [Print_invalid_number idx]))"
  using assms by (simp add: select_tokens_append split: prod.splits)

lemma parse_selection_trace:
  "set (snd (select_tokens extensions indices [] tr)) \<subseteq>
   set (snd (parse_selection extensions indices selected tr))"
  by (auto simp: parse_selection_def Let_def split: prod.splits)

lemma invalid_reported:
  assumes "map_of extensions idx = None"
  shows "Print_invalid_number idx \<in>
         set (snd (parse_selection extensions (pre @ idx # post) selected tr))"
proof -
  obtain t1 tr1 where p: "select_tokens extensions pre [] tr = (t1, tr1)"
    by (cases "select_tokens extensions pre [] tr")
  have "Print_invalid_number idx \<in> set (tr1 @ [Print_invalid_number idx])" by simp
  then have "Print_invalid_number idx \<in>
             set (snd (select_tokens extensions post t1 (tr1 @ [Print_invalid_number idx])))"
    using select_tokens_trace_grows by blast
  then have "Print_invalid_number idx \<in>
             set (snd (select_tokens extensions (pre @ idx # post) [] tr))"
    using p by (simp add: select_tokens_invalid [OF assms])
  then show ?thesis using parse_selection_trace by blast
qed

lemma listing_no_calls:
  "filter is_call (map (\<lambda>x. Print_listing (f x) (g x)) xs) = []"
  by (induction xs) auto

lemma items_no_calls: "filter is_call (map (Print_item \<circ> display_name) xs) = []"
  by (induction xs) auto

lemma selected_of_Inr:
  "selected_of r = Inr (selected, rest) \<Longrightarrow> \<exists>tr. r = Inr (selected, rest, tr)"
  by (cases r) (auto simp: selected_of_def)

lemma bulk_without_install:
  assumes "selected_of (selection_loop extensions stdin [] tr) = Inr (selected, rest)"
    and "selected = [] \<or> \<not> fst (get_confirm rest)"
  shows "\<exists>tr' rest'. bulk_install_extensions install get_confirm extensions stdin w =
           Inr (tr', rest', w) \<and> filter is_call tr' = [] \<and> (selected = [] \<longrightarrow> rest' = rest)"
proof -
  let ?tr0 = "[Print_bulk_title, Print_available] @
      map (\<lambda>extension. Print_listing (dict_get (metadata extension) ''index'')
                        (display_name extension)) (map snd extensions) @
      [Print_instructions, Print_instruction_numbers, Print_instruction_all,
       Print_instruction_done]"
  have "selected_of (selection_loop extensions stdin [] ?tr0) = Inr (selected, rest)"
    using assms(1) loop_selected_any_trace [of extensions stdin "[]" ?tr0 tr] by simp
  then obtain tr1 where run: "selection_loop extensions stdin [] ?tr0 = Inr (selected, rest, tr1)"
    using selected_of_Inr by blast
  have "filter is_call ?tr0 = []" by (simp add: listing_no_calls)
  with loop_calls [OF run] have nc: "filter is_call tr1 = []" by simp
  show ?thesis
  proof (cases "selected = []")
    case True
    with run nc show ?thesis by (simp add: bulk_install_extensions_def)
  next
    case False
    with assms(2) have "\<not> fst (get_confirm rest)" by simp
    then obtain rest2 where "get_confirm rest = (False, rest2)" by (cases "get_confirm rest") auto
    with False run nc show ?thesis
      by (simp add: bulk_install_extensions_def items_no_calls)
  qed
qed

text \<open>
  C4. After any lines that are no command, and whatever has been selected so far, a line
  that reads \<open>all\<close> in any letter case makes the loop return every instance of the
  Registry in Registry order; the last thing printed is the count, and the lines after
  it are left unread.
\<close>

theorem select_all_overrides:
  assumes "py_lower (py_strip line) = ''all''" and "\<forall>l\<in>set lines. \<not> is_command l"
  shows "\<exists>tr'. selection_loop extensions (lines @ line # rest) selected tr =
           Inr (map snd extensions, rest,
                tr' @ [Call_input, Print_selected_all (length extensions)])"
proof -
  from loop_prefix [OF assms(2)] obtain sel' tr' where
    "selection_loop extensions (lines @ line # rest) selected tr =
     selection_loop extensions (line # rest) sel' tr'" by blast
  with loop_all [OF assms(1)] show ?thesis by simp
qed

text \<open>After \<open>2 3\<close>, the line \<open>ALL\<close> selects the whole Registry and leaves \<open>1\<close> and \<open>done\<close> unread.\<close>

theorem select_all_overrides_witness:
  "\<exists>tr'. selection_loop registry3 [''2 3'', '' ALL '', ''1'', ''done''] [] [] =
           Inr (map snd registry3, [''1'', ''done''],
                tr' @ [Call_input, Print_selected_all (length registry3)])"
proof -
  have a: "py_lower (py_strip '' ALL '') = ''all''"
    by (simp add: selection_defs)
  have b: "\<forall>l\<in>set [''2 3'']. \<not> is_command l"
    by (simp add: is_command_def selection_defs)
  from select_all_overrides [OF a b, of registry3 "[''1'', ''done'']" "[]" "[]"]
  show ?thesis by (simp only: append.simps)
qed

text \<open>
  C6, as stated, fails: the line \<open>finish\<close> is no command of the loop. It is read as a
  token, reported as an invalid extension number, and the loop goes on reading.
\<close>

theorem finish_is_no_command:
  "selection_loop registry3 [''finish'', ''1'', ''done''] [] [] =
     Inr ([ext_A], [],
          [Call_input, Print_invalid_number ''finish'', Call_input, Print_added (PStr ''A''),
           Print_currently_selected 1, Print_item (PStr ''A''), Call_input])"
  by (simp add: selection_defs example_defs)

text \<open>
  C6, amended. The command that ends the selection is \<open>done\<close>, in any letter case:
  after any lines that are no command the loop returns the set accumulated from them and
  leaves the later lines unread. When that set is empty, \<open>bulk_install_extensions\<close>
  returns normally, has called no install and has left the world as it was.
\<close>

theorem done_returns_selection:
  assumes "py_lower (py_strip line) = ''done''" and "\<forall>l\<in>set lines. \<not> is_command l"
  shows "selected_of (selection_loop extensions (lines @ line # rest) [] tr) =
           Inr (first_occurrences (concat (map (line_exts extensions) lines)), rest)
         \<and> (concat (map (line_exts extensions) lines) = [] \<longrightarrow>
             (\<exists>tr'. bulk_install_extensions install get_confirm extensions
                      (lines @ line # rest) w = Inr (tr', rest, w)
                    \<and> filter is_call tr' = []))"
proof -
  let ?sel = "first_occurrences (concat (map (line_exts extensions) lines))"
  have r: "selected_of (selection_loop extensions (lines @ line # rest) [] tr) = Inr (?sel, rest)"
    using loop_forward [OF assms(2), of "[]" extensions "line # rest" tr] loop_done [OF assms(1)]
    by (simp add: selected_of_def)
  moreover have "\<exists>tr'. bulk_install_extensions install get_confirm extensions
                      (lines @ line # rest) w = Inr (tr', rest, w) \<and> filter is_call tr' = []"
    if "concat (map (line_exts extensions) lines) = []"
  proof -
    from that have e: "?sel = []" by (simp add: first_occurrences_def)
    from bulk_without_install [OF r, of get_confirm install w] e show ?thesis by auto
  qed
  ultimately show ?thesis by blast
qed

text \<open>
  \<open>2 3\<close>, \<open>1 2\<close>, \<open>Done\<close> returns B, C, A; an unknown number and \<open>DONE\<close> installs
  nothing.
\<close>

theorem done_returns_selection_witness:
  "selected_of (selection_loop registry3 [''2 3'', ''1 2'', '' Done'', ''y''] [] []) =
     Inr ([ext_B, ext_C, ext_A], [''y''])
   \<and> (\<exists>tr'. bulk_install_extensions inst5 confirm_y registry3 [''7'', ''DONE'', ''y''] 0 =
              Inr (tr', [''y''], 0) \<and> filter is_call tr' = [])"
proof -
  have a: "py_lower (py_strip '' Done'') = ''done''" "py_lower (py_strip ''DONE'') = ''done''"
    by (simp_all add: selection_defs)
  have b: "\<forall>l\<in>set [''2 3'', ''1 2'']. \<not> is_command l" "\<forall>l\<in>set [''7'']. \<not> is_command l"
    by (simp_all add: is_command_def selection_defs)
  have c: "concat (map (line_exts registry3) [''7'']) = []"
    by (simp add: line_exts_def token_exts_def List.map_filter_simps registry3_def selection_defs)
  have d: "first_occurrences (concat (map (line_exts registry3) [''2 3'', ''1 2''])) =
           [ext_B, ext_C, ext_A]"
    by (simp add: line_exts_def token_exts_def List.map_filter_simps first_occurrences_def
        selection_defs example_defs)
  note t1 = done_returns_selection [OF a(1) b(1), of registry3 "[''y'']" "[]" inst5 confirm_y 0]
  note t2 = done_returns_selection [OF a(2) b(2), of registry3 "[''y'']" "[]" inst5 confirm_y 0]
  from t1 have "selected_of (selection_loop registry3 [''2 3'', ''1 2'', '' Done'', ''y''] [] []) =
     Inr ([ext_B, ext_C, ext_A], [''y''])"
    by (simp only: d append.simps)
  moreover from t2 [THEN conjunct2, THEN mp, OF c]
  have "\<exists>tr'. bulk_install_extensions inst5 confirm_y registry3 [''7'', ''DONE'', ''y''] 0 =
              Inr (tr', [''y''], 0) \<and> filter is_call tr' = []"
    by (simp only: append.simps)
  ultimately show ?thesis by (rule conjI)
qed

text \<open>
  C7. The menu's Registry is what \<open>discover_extensions\<close> returned. Whenever the selection
  loop returns, the Selection Set has no instance twice. The lines read were lines that are
  no command and then \<open>done\<close> or \<open>all\<close>: after \<open>done\<close> the set is the instances the
  tokens of those lines name, each once, in the order of their first selection; after
  \<open>all\<close> it is the Registry's instances.
\<close>

theorem selection_set_has_no_duplicates:
  assumes "discover_extensions import_module root next_id = Inr (extensions, next_id', tr0)"
    and "selection_loop extensions stdin [] tr = Inr (selected, rest, tr')"
  shows "distinct selected \<and>
         (\<exists>lines fin. stdin = lines @ fin # rest \<and> (\<forall>l\<in>set lines. \<not> is_command l) \<and>
            (if py_lower (py_strip fin) = ''done''
             then selected = first_occurrences (concat (map (line_exts extensions) lines))
             else py_lower (py_strip fin) = ''all'' \<and> selected = map snd extensions))"
proof -
  have dv: "distinct (map snd extensions)" by (rule discover_wellformed [OF assms(1)])
  from loop_returns [OF _ assms(2)] obtain lines fin where
    st: "stdin = lines @ fin # rest" and nc: "\<forall>l\<in>set lines. \<not> is_command l" and
    res: "if py_lower (py_strip fin) = ''done''
          then selected = first_occurrences ([] @ concat (map (line_exts extensions) lines))
          else py_lower (py_strip fin) = ''all'' \<and> selected = map snd extensions"
    by auto
  have "distinct selected"
    using res dv by (auto simp: distinct_first_occurrences split: if_splits)
  with st nc res show ?thesis by auto
qed

text \<open>
  Key 2 on two lines and twice on one line, keys 1 and 3 on two lines each: the set is
  B, C, A.
\<close>

theorem selection_set_has_no_duplicates_witness:
  "distinct [ext_B, ext_C, ext_A] \<and>
   (\<exists>lines fin. [''2 3'', ''2 1 3 2'', ''1'', ''done''] = lines @ fin # [] \<and>
      (\<forall>l\<in>set lines. \<not> is_command l) \<and>
      (if py_lower (py_strip fin) = ''done''
       then [ext_B, ext_C, ext_A] = first_occurrences (concat (map (line_exts registry3) lines))
       else py_lower (py_strip fin) = ''all'' \<and> [ext_B, ext_C, ext_A] = map snd registry3))"
proof -
  have run: "selection_loop registry3 [''2 3'', ''2 1 3 2'', ''1'', ''done''] [] [] =
    Inr ([ext_B, ext_C, ext_A], [],
      [Call_input, Print_added (PStr ''B''), Print_added (PStr ''C''),
       Print_currently_selected 2, Print_item (PStr ''B''), Print_item (PStr ''C''),
       Call_input, Print_added (PStr ''B''), Print_added (PStr ''A''),
       Print_added (PStr ''C''), Print_already_selected (PStr ''B''),
       Print_currently_selected 3, Print_item (PStr ''B''), Print_item (PStr ''C''),
       Print_item (PStr ''A''),
       Call_input, Print_added (PStr ''A''), Print_currently_selected 3,
       Print_item (PStr ''B''), Print_item (PStr ''C''), Print_item (PStr ''A''),
       Call_input])"
    by (simp add: selection_defs example_defs)
  show ?thesis
    by (rule selection_set_has_no_duplicates [OF discover_root3 run])
qed

text \<open>
  C8. A token \<open>idx\<close> that is no key of the Registry: the token loop leaves the line's
  batch as it is, appends the report \<open>Invalid extension number: idx\<close> and goes on with
  the tokens after it; the accumulated set after the line is the one the other tokens
  alone give (unchanged when the token stands alone); the report is in the line's output;
  and the selection loop goes on to the next line with that set. No step of this has an
  error result.
\<close>

theorem invalid_token_changes_nothing:
  assumes "map_of extensions idx = None"
  shows "select_tokens extensions (pre @ idx # post) temp tr =
           (case select_tokens extensions pre temp tr of
              (t1, tr1) \<Rightarrow> select_tokens extensions post t1 (tr1 @ [Print_invalid_number idx]))
         \<and> fst (parse_selection extensions (pre @ idx # post) selected tr) =
             fst (parse_selection extensions (pre @ post) selected tr)
         \<and> fst (parse_selection extensions [idx] selected tr) = selected
         \<and> Print_invalid_number idx \<in>
             set (snd (parse_selection extensions (pre @ idx # post) selected tr))
         \<and> (\<not> is_command line \<and> py_split (py_strip line) = pre @ idx # post \<longrightarrow>
              selected_of (selection_loop extensions (line # rest) selected tr) =
              selected_of (selection_loop extensions rest
                 (fst (parse_selection extensions (pre @ post) selected tr)) tr))"
proof -
  have a: "fst (parse_selection extensions (pre @ idx # post) selected tr2) =
           fst (parse_selection extensions (pre @ post) selected tr)" for tr2
    by (simp add: parse_selection_fst token_exts_invalid [OF assms])
  have b: "fst (parse_selection extensions [idx] selected tr) = selected"
    using assms by (simp add: parse_selection_fst token_exts_def List.map_filter_simps)
  have c: "selected_of (selection_loop extensions (line # rest) selected tr) =
           selected_of (selection_loop extensions rest
              (fst (parse_selection extensions (pre @ post) selected tr)) tr)"
    if "\<not> is_command line" "py_split (py_strip line) = pre @ idx # post"
    unfolding loop_other [OF that(1)] that(2) a by (rule loop_selected_any_trace)
  show ?thesis
    using select_tokens_invalid [OF assms] a [of tr] b invalid_reported [OF assms] c by blast
qed

text \<open>The line \<open>2 9 3\<close> with A already selected: 9 is reported, the set becomes A, B, C.\<close>

theorem invalid_token_changes_nothing_witness:
  "select_tokens registry3 ([''2''] @ ''9'' # [''3'']) [] [] =
     (case select_tokens registry3 [''2''] [] [] of
        (t1, tr1) \<Rightarrow> select_tokens registry3 [''3''] t1 (tr1 @ [Print_invalid_number ''9'']))
   \<and> fst (parse_selection registry3 ([''2''] @ ''9'' # [''3'']) [ext_A] []) =
       fst (parse_selection registry3 ([''2''] @ [''3'']) [ext_A] [])
   \<and> fst (parse_selection registry3 [''9''] [ext_A] []) = [ext_A]
   \<and> Print_invalid_number ''9'' \<in>
       set (snd (parse_selection registry3 ([''2''] @ ''9'' # [''3'']) [ext_A] []))
   \<and> selected_of (selection_loop registry3 (''2 9 3'' # [''done'']) [ext_A] []) =
       selected_of (selection_loop registry3 [''done'']
          (fst (parse_selection registry3 ([''2''] @ [''3'']) [ext_A] [])) [])
   \<and> selected_of (selection_loop registry3 (''2 9 3'' # [''done'']) [ext_A] []) =
       Inr ([ext_A, ext_B, ext_C], [])"
proof -
  have a: "map_of registry3 ''9'' = None" by (simp add: registry3_def)
  have b: "\<not> is_command ''2 9 3'' \<and> py_split (py_strip ''2 9 3'') = [''2''] @ ''9'' # [''3'']"
    by (simp add: is_command_def selection_defs)
  have c: "selected_of (selection_loop registry3 (''2 9 3'' # [''done'']) [ext_A] []) =
       Inr ([ext_A, ext_B, ext_C], [])"
    by (simp add: selected_of_def selection_defs example_defs)
  note t = invalid_token_changes_nothing [OF a, of "[''2'']" "[''3'']" "[]" "[]" "[ext_A]"
      "''2 9 3''" "[''done'']"]
  from t b c show ?thesis by blast
qed

text \<open>
  C10. When the selection loop returns the empty set, or \<open>get_confirm\<close> answers no on
  the lines left, \<open>bulk_install_extensions\<close> returns normally, its trace has no call of
  \<open>install_extension\<close>, and the world is the one it started in. The Registry is an
  argument that nothing writes.
\<close>

theorem no_install_without_selection_or_consent:
  assumes "selected_of (selection_loop extensions stdin [] []) = Inr (selected, rest)"
    and "selected = [] \<or> \<not> fst (get_confirm rest)"
  shows "\<exists>tr' rest'. bulk_install_extensions install get_confirm extensions stdin w =
           Inr (tr', rest', w) \<and> filter is_call tr' = []"
  using bulk_without_install [where get_confirm = get_confirm, OF assms, of install w] by blast

text \<open>An empty selection, and the selection C, A declined with \<open>n\<close>.\<close>

theorem no_install_without_selection_or_consent_witness:
  "(\<exists>tr' rest'. bulk_install_extensions inst5 confirm_y registry3 [''x'', ''done'', ''y''] 0 =
           Inr (tr', rest', 0) \<and> filter is_call tr' = [])
   \<and> (\<exists>tr' rest'. bulk_install_extensions inst5 confirm_y registry3 [''3 1'', ''done'', ''n''] 0 =
           Inr (tr', rest', 0) \<and> filter is_call tr' = [])"
proof -
  have a: "selected_of (selection_loop registry3 [''x'', ''done'', ''y''] [] []) = Inr ([], [''y''])"
    by (simp add: selected_of_def selection_defs example_defs)
  have b: "selected_of (selection_loop registry3 [''3 1'', ''done'', ''n''] [] []) =
             Inr ([ext_C, ext_A], [''n''])"
    by (simp add: selected_of_def selection_defs example_defs)
  have c: "[ext_C, ext_A] = [] \<or> \<not> fst (confirm_y [''n''])"
    by (simp add: confirm_y_def selection_defs)
  have d: "([]::extension list) = [] \<or> \<not> fst (confirm_y [''y''])" by simp
  from no_install_without_selection_or_consent [where get_confirm = confirm_y, OF a d, of inst5 0]
    no_install_without_selection_or_consent [where get_confirm = confirm_y, OF b c, of inst5 0]
  show ?thesis by (rule conjI)
qed

section \<open>The claims about the loader\<close>

lemmas example_defs2 = broken_module_def two_module_def empty_module_def import_by_dir_def
  unreadable_def unsearchable_def

lemma getmembers_first:
  assumes d: "distinct (map fst module)" and m: "(name, cls) \<in> set module" and p: "predicate cls"
    and least: "\<forall>(n', c')\<in>set module. predicate c' \<longrightarrow> name \<le> n'"
  shows "\<exists>others. getmembers module predicate = (name, cls) # others"
proof -
  let ?xs = "filter (\<lambda>(name, value). predicate value) module"
  have mem: "(name, cls) \<in> set (sort_key fst ?xs)" using m p by simp
  then obtain q qs where s: "sort_key fst ?xs = q # qs" by (cases "sort_key fst ?xs") auto
  have "sorted (map fst (sort_key fst ?xs))" by simp
  with s have le: "\<forall>r\<in>set qs. fst q \<le> fst r" by simp
  have "q \<in> set (sort_key fst ?xs)" using s by simp
  then have qm: "q \<in> set module" and qp: "predicate (snd q)" by auto
  from least qm qp have "name \<le> fst q" by (cases q) auto
  moreover from mem s le have "fst q \<le> name" by auto
  ultimately have "fst q = name" by simp
  with d m qm have "q = (name, cls)"
    by (cases q) (auto dest: eq_key_imp_eq_value)
  with s show ?thesis by (simp add: getmembers_def)
qed

lemma registry_of_discover:
  assumes "registry_of (scan imp es1 [] n []) = registry_of (scan imp es2 [] n [])"
  shows "registry_of (discover_extensions imp (Inr es1) n) =
         registry_of (discover_extensions imp (Inr es2) n)"
proof -
  have "registry_of (discover_extensions imp (Inr es) n) =
        (case registry_of (scan imp es [] n []) of
           Inl e \<Rightarrow> Inl e
         | Inr (d, n') \<Rightarrow> (case sorted_items d of Inl e \<Rightarrow> Inl e | Inr reg \<Rightarrow> Inr (reg, n')))" for es
    by (auto simp: discover_extensions_def registry_of_def split: sum.splits prod.splits)
  with assms show ?thesis by simp
qed

lemma scan_skips_failed:
  assumes "metadata_exists bad" "load_package imp bad = Inl e" "caught_by_loader e"
  shows "scan imp (bad # post) d n tr =
         scan imp post d n (tr @ [Print_failed_loading (entry_name bad) e])"
  using assms by (simp add: metadata_exists_def)

text \<open>
  C1, amended. A package whose metadata document exists and whose load steps inside the
  \<open>try\<close> block (opening and parsing the document, importing the module, finding and
  instantiating the type) raise \<open>IOError\<close>, \<open>json.JSONDecodeError\<close> or
  \<open>ImportError\<close> (subclasses included): the scan prints the package's name with the
  error and goes on with the next package; the Registry and the next identity are those of
  the same directory without the package, and so is whether discovery returns at all; and
  when discovery returns, the report is in its output.
\<close>

theorem caught_load_errors_are_isolated:
  assumes "metadata_exists bad" and "load_package import_module bad = Inl e"
    and "caught_by_loader e"
  shows "scan import_module (bad # post) ext_dict next_id tr =
           scan import_module post ext_dict next_id
             (tr @ [Print_failed_loading (entry_name bad) e])
         \<and> registry_of (discover_extensions import_module (Inr (pre @ bad # post)) next_id) =
             registry_of (discover_extensions import_module (Inr (pre @ post)) next_id)
         \<and> (\<forall>registry next_id' tr'.
               discover_extensions import_module (Inr (pre @ bad # post)) next_id =
                 Inr (registry, next_id', tr') \<longrightarrow>
               Print_failed_loading (entry_name bad) e \<in> set tr')"
proof -
  note skip = scan_skips_failed [OF assms]
  have reg: "registry_of (scan import_module (pre @ bad # post) [] next_id []) =
             registry_of (scan import_module (pre @ post) [] next_id [])"
  proof (cases "scan import_module pre [] next_id []")
    case (Inl e')
    then show ?thesis by (simp add: scan_append)
  next
    case (Inr r)
    obtain d1 n1 tr1 where r: "r = (d1, n1, tr1)" by (cases r)
    have a: "scan import_module (pre @ bad # post) [] next_id [] =
             scan import_module post d1 n1 (tr1 @ [Print_failed_loading (entry_name bad) e])"
      using Inr r by (simp add: scan_append skip del: scan.simps)
    have b: "scan import_module (pre @ post) [] next_id [] = scan import_module post d1 n1 tr1"
      using Inr r by (simp add: scan_append del: scan.simps)
    show ?thesis unfolding a b by (rule scan_any_trace)
  qed
  have logged: "Print_failed_loading (entry_name bad) e \<in> set tr'"
    if run: "discover_extensions import_module (Inr (pre @ bad # post)) next_id =
               Inr (registry, next_id', tr')" for registry next_id' tr'
  proof -
    from discover_Inr [OF run] obtain d where
      sc: "scan import_module (pre @ bad # post) [] next_id [] = Inr (d, next_id', tr')" by auto
    then obtain d1 n1 tr1 where
      "scan import_module post d1 n1 (tr1 @ [Print_failed_loading (entry_name bad) e]) =
         Inr (d, next_id', tr')"
      by (cases "scan import_module pre [] next_id []")
         (auto simp: scan_append skip simp del: scan.simps)
    from scan_trace_grows [OF this] show ?thesis by auto
  qed
  from skip registry_of_discover [OF reg] logged show ?thesis by blast
qed

text \<open>
  C1, as stated, fails: a constructor that raises \<open>TypeError\<close> is an instantiation
  failure that the \<open>except\<close> clause does not name. It leaves \<open>discover_extensions\<close>,
  and the packages before and after it are lost with it.
\<close>

theorem constructor_error_aborts_discovery:
  "discover_extensions import_by_dir
     (Inr [package ''a'' (PInt 1) ''A'', package ''broken'' (PInt 2) ''B'',
           package ''c'' (PInt 3) ''C'']) 0 = Inl TypeError"
  by (simp add: loader_defs example_defs example_defs2)

text \<open>A metadata document that does not parse, between two packages that load.\<close>

theorem caught_load_errors_are_isolated_witness:
  "scan import_by_dir (unreadable # [package ''a'' (PInt 1) ''A'']) [] 0 [] =
     scan import_by_dir [package ''a'' (PInt 1) ''A''] [] 0
       ([] @ [Print_failed_loading (entry_name unreadable) JSONDecodeError])
   \<and> registry_of (discover_extensions import_by_dir
         (Inr ([package ''c'' (PInt 3) ''C''] @ unreadable # [package ''a'' (PInt 1) ''A''])) 0) =
       registry_of (discover_extensions import_by_dir
         (Inr ([package ''c'' (PInt 3) ''C''] @ [package ''a'' (PInt 1) ''A''])) 0)
   \<and> discover_extensions import_by_dir
         (Inr ([package ''c'' (PInt 3) ''C''] @ unreadable # [package ''a'' (PInt 1) ''A''])) 0 =
       Inr ([(''1'', \<lparr>ext_id = 1, metadata = descriptor (PInt 1) ''A''\<rparr>),
             (''3'', \<lparr>ext_id = 0, metadata = descriptor (PInt 3) ''C''\<rparr>)], 2,
            [Print_failed_loading ''bad'' JSONDecodeError])"
proof -
  have a: "metadata_exists unreadable" by (simp add: unreadable_def metadata_exists_def)
  have b: "load_package import_by_dir unreadable = Inl JSONDecodeError"
    by (simp add: load_package_def unreadable_def)
  have c: "caught_by_loader JSONDecodeError" by (simp add: caught_by_loader_def)
  have d: "discover_extensions import_by_dir
         (Inr ([package ''c'' (PInt 3) ''C''] @ unreadable # [package ''a'' (PInt 1) ''A''])) 0 =
       Inr ([(''1'', \<lparr>ext_id = 1, metadata = descriptor (PInt 1) ''A''\<rparr>),
             (''3'', \<lparr>ext_id = 0, metadata = descriptor (PInt 3) ''C''\<rparr>)], 2,
            [Print_failed_loading ''bad'' JSONDecodeError])"
    by (simp add: loader_defs example_defs example_defs2)
  note t = caught_load_errors_are_isolated [OF a b c,
      where post = "[package ''a'' (PInt 1) ''A'']" and ext_dict = "[]" and next_id = 0
        and tr = "[]" and pre = "[package ''c'' (PInt 3) ''C'']"]
  from t d show ?thesis by blast
qed

text \<open>
  The existence check stands before the \<open>try\<close> block: a \<open>PermissionError\<close> it raises
  for a directory that cannot be searched leaves \<open>discover_extensions\<close>, although the
  \<open>except\<close> clause names its class.
\<close>

lemma existence_check_error_aborts_discovery:
  "caught_by_loader PermissionError \<and>
   discover_extensions import_by_dir
     (Inr [package ''a'' (PInt 1) ''A'', unsearchable, package ''c'' (PInt 3) ''C'']) 0 =
     Inl PermissionError"
  by (simp add: loader_defs example_defs example_defs2)

text \<open>A module with no matching type: the lookup of the first member raises.\<close>

lemma no_candidate_aborts_discovery:
  "discover_extensions import_by_dir
     (Inr [package ''a'' (PInt 1) ''A'', package ''none'' (PInt 2) ''N'']) 0 = Inl IndexError"
  by (simp add: loader_defs example_defs example_defs2)

text \<open>
  C2, as stated, fails: a module with two matching types is no failed load. The first
  member in name order is instantiated and the package is in the Registry.
\<close>

theorem two_candidates_are_loaded:
  "length (getmembers two_module predicate) = 2 \<and>
   discover_extensions import_by_dir (Inr [package ''two'' (PInt 1) ''Two'']) 0 =
     Inr ([(''1'', \<lparr>ext_id = 0, metadata = descriptor (PInt 1) ''Two''\<rparr>)], 1, [])"
  by (simp add: loader_defs example_defs example_defs2)

text \<open>
  C2, amended. When the resolved module has at least one member that satisfies the
  predicate, the loader instantiates the one with the least name, however many others
  there are: the package's load is the result of that constructor, and when it returns
  the instance is stored under the package's key and the scan goes on with the other
  packages.
\<close>

theorem first_candidate_is_instantiated:
  assumes "json_load ext = Inr (Document doc)"
    and "map_of doc ''metadata'' = Some (Json_dict md)"
    and "import_module (''kiauh.extensions.'' @ entry_name ext @ ''.'' @
                        py_str (dict_get md ''module'')) = Inr module"
    and "distinct (map fst module)" and "(name, cls) \<in> set module" and "predicate cls"
    and "\<forall>(n', c')\<in>set module. predicate c' \<longrightarrow> name \<le> n'"
  shows "load_package import_module ext =
           (case construct cls md of
              Inl e \<Rightarrow> Inl e
            | Inr m \<Rightarrow> Inr (py_str (dict_get md ''index''), m))
         \<and> (metadata_exists ext \<and> construct cls md = Inr m \<longrightarrow>
              scan import_module (ext # rest) ext_dict next_id tr =
              scan import_module rest
                (AList.update (py_str (dict_get md ''index''))
                   \<lparr>ext_id = next_id, metadata = m\<rparr> ext_dict)
                (Suc next_id) tr)"
proof -
  from getmembers_first [OF assms(4-7)] obtain others where
    g: "getmembers module predicate = (name, cls) # others" by blast
  have l: "load_package import_module ext =
           (case construct cls md of
              Inl e \<Rightarrow> Inl e
            | Inr m \<Rightarrow> Inr (py_str (dict_get md ''index''), m))"
    using assms(1-3) g by (simp add: load_package_def Let_def)
  then show ?thesis by (simp add: metadata_exists_def)
qed

text \<open>The module with \<open>AExtension\<close> and \<open>ZExtension\<close>: \<open>AExtension\<close> is instantiated.\<close>

theorem first_candidate_is_instantiated_witness:
  "load_package import_by_dir (package ''two'' (PInt 1) ''Two'') =
     (case construct (Class \<lparr>extends_base = True, init_raises = None\<rparr>)
             (descriptor (PInt 1) ''Two'') of
        Inl e \<Rightarrow> Inl e
      | Inr m \<Rightarrow> Inr (py_str (dict_get (descriptor (PInt 1) ''Two'') ''index''), m))
   \<and> scan import_by_dir (package ''two'' (PInt 1) ''Two'' # [package ''a'' (PInt 2) ''A'']) [] 0 [] =
       scan import_by_dir [package ''a'' (PInt 2) ''A'']
         (AList.update (py_str (dict_get (descriptor (PInt 1) ''Two'') ''index''))
            \<lparr>ext_id = 0, metadata = descriptor (PInt 1) ''Two''\<rparr> [])
         (Suc 0) []"
proof -
  let ?ext = "package ''two'' (PInt 1) ''Two''"
  let ?cls = "Class \<lparr>extends_base = True, init_raises = None\<rparr>"
  have a: "json_load ?ext = Inr (Document [(''metadata'', Json_dict (descriptor (PInt 1) ''Two''))])"
    by (simp add: package_def)
  have b: "map_of [(''metadata'', Json_dict (descriptor (PInt 1) ''Two''))] ''metadata'' =
           Some (Json_dict (descriptor (PInt 1) ''Two''))" by simp
  have c: "import_by_dir (''kiauh.extensions.'' @ entry_name ?ext @ ''.'' @
             py_str (dict_get (descriptor (PInt 1) ''Two'') ''module'')) = Inr two_module"
    by (simp add: import_by_dir_def package_def descriptor_def dict_get_def)
  have d: "distinct (map fst two_module)" by (simp add: two_module_def)
  have e: "(''AExtension'', ?cls) \<in> set two_module" by (simp add: two_module_def)
  have f: "predicate ?cls"
    by (simp add: predicate_def isclass_def issubclass_BaseExtension_def)
  have g: "\<forall>(n', c')\<in>set two_module. predicate c' \<longrightarrow> ''AExtension'' \<le> n'"
    by (simp add: two_module_def predicate_def isclass_def issubclass_BaseExtension_def)
  have h: "metadata_exists ?ext \<and>
           construct ?cls (descriptor (PInt 1) ''Two'') = Inr (descriptor (PInt 1) ''Two'')"
    by (simp add: package_def construct_def metadata_exists_def)
  note t = first_candidate_is_instantiated [where import_module = import_by_dir,
      OF a b c d e f g, where m = "descriptor (PInt 1) ''Two''"
        and rest = "[package ''a'' (PInt 2) ''A'']" and ext_dict = "[]" and next_id = 0
        and tr = "[]"]
  from t h show ?thesis by blast
qed




text \<open>
  C9. When discovery returns, running it again on the same directory listing and import
  system also returns: the new instances have new identities, and the Registry has the
  same keys in the same order with the same descriptors, after the same output.
\<close>

theorem discovery_is_repeatable:
  assumes "discover_extensions import_module root next_id = Inr (registry1, next_id1, tr1)"
  shows "\<exists>registry2 next_id2.
           discover_extensions import_module root next_id1 = Inr (registry2, next_id2, tr1)
           \<and> map fst registry2 = map fst registry1
           \<and> descriptors registry2 = descriptors registry1"
proof -
  from discover_descriptors [of import_module root next_id next_id1] assms
  obtain registry2 next_id2 where
    run: "discover_extensions import_module root next_id1 = Inr (registry2, next_id2, tr1)"
    and d: "descriptors registry2 = descriptors registry1"
    by (cases "discover_extensions import_module root next_id1") auto
  have "map fst (descriptors r) = map fst r" for r
    by (induction r) (auto simp: descriptors_def)
  with d have "map fst registry2 = map fst registry1" by metis
  with run d show ?thesis by blast
qed

text \<open>The example root, discovered a second time from the identity the first run ended at.\<close>

theorem discovery_is_repeatable_witness:
  "\<exists>registry2 next_id2.
     discover_extensions import_ok root3 3 = Inr (registry2, next_id2, [])
     \<and> map fst registry2 = map fst registry3
     \<and> descriptors registry2 = descriptors registry3"
  by (rule discovery_is_repeatable [OF discover_root3])

end
